theory Spec2Isabelle
  imports Complex_Main "HOL-Library.Multiset" "HOL-Library.Sublist" "HOL-Library.Log_Nat"
begin

section \<open>Data model\<close>

text \<open>
  The quarter-over-quarter diff engine (\<^verbatim>\<open>analysis/diff.py\<close>) and the thesis-signal
  detector (\<^verbatim>\<open>analysis/signals.py\<close>) of the 13F tracker.

  Python's unbounded \<^verbatim>\<open>int\<close> is \<^typ>\<open>int\<close>. A Python \<^verbatim>\<open>float\<close> is modelled by the
  exact quotient in \<^typ>\<open>rat\<close>: the true division \<^verbatim>\<open>a / b\<close> of two ints is the rational
  \<open>a / b\<close>, without the rounding to a double. What the model keeps of the division is
  its failure: a zero divisor raises \<^verbatim>\<open>ZeroDivisionError\<close>. The two concentration
  diagnostics, which are compared with the constant 1.0, are modelled a second time with
  the rounding of the doubles, in the section on double precision below; there a quotient
  beyond the range of the doubles raises \<^verbatim>\<open>OverflowError\<close>.
\<close>

datatype py_error = ZeroDivisionError | AttributeError | OverflowError

definition truediv :: "int \<Rightarrow> int \<Rightarrow> py_error + rat" where
  "truediv a b = (if b = 0 then Inl ZeroDivisionError else Inr (rat_of_int a / rat_of_int b))"

definition bind_err :: "py_error + 'a \<Rightarrow> ('a \<Rightarrow> py_error + 'b) \<Rightarrow> py_error + 'b" where
  "bind_err m f = (case m of Inl e \<Rightarrow> Inl e | Inr x \<Rightarrow> f x)"

text \<open>\<^verbatim>\<open>storage/models.py\<close>, class \<^verbatim>\<open>HoldingRecord\<close>.\<close>

record HoldingRecord =
  h_id :: "int option"
  h_filing_id :: int
  h_issuer_name :: string
  h_title_of_class :: string
  h_cusip :: string
  h_figi :: "string option"
  h_value_thousands :: int
  h_value_usd :: int
  h_shares_or_principal :: int
  h_shares_type :: string
  h_put_call :: "string option"
  h_investment_discretion :: string
  h_voting_sole :: int
  h_voting_shared :: int
  h_voting_none :: int

text \<open>The three thresholds of \<^verbatim>\<open>config.py\<close>, class \<^verbatim>\<open>Config\<close>, that the diff engine reads.\<close>

record Config =
  starter_weight_min :: rat
  starter_weight_max :: rat
  starter_value_threshold :: int

text \<open>
  The field \<^verbatim>\<open>change_type\<close> is a string that only ever holds one of five constants.
\<close>

datatype ChangeType = NEW | EXIT | INCREASE | DECREASE | UNCHANGED

record PositionDiff =
  cusip :: string
  issuer_name :: string
  title_of_class :: string
  prev_value_usd :: "int option"
  now_value_usd :: "int option"
  delta_value_usd :: int
  prev_shares :: "int option"
  now_shares :: "int option"
  delta_shares :: int
  prev_weight :: "rat option"
  now_weight :: "rat option"
  growth_rate :: "rat option"
  portfolio_impact :: "rat option"
  change_type :: ChangeType
  is_starter :: bool
  put_call :: "string option"

record QuarterDiff =
  fund_id :: int
  fund_name :: string
  period_from :: string
  period_to :: string
  total_portfolio_prev :: int
  total_portfolio_now :: int
  new_positions :: "PositionDiff list"
  sold_out :: "PositionDiff list"
  increased :: "PositionDiff list"
  decreased :: "PositionDiff list"
  unchanged :: "PositionDiff list"
  top_adds_by_value :: "PositionDiff list"
  top_cuts_by_value :: "PositionDiff list"
  top_adds_by_growth_rate :: "PositionDiff list"
  top_cuts_by_growth_rate :: "PositionDiff list"
  top_adds_by_portfolio_impact :: "PositionDiff list"
  top_cuts_by_portfolio_impact :: "PositionDiff list"
  new_starters :: "PositionDiff list"
  increased_starters :: "PositionDiff list"
  concentration_top5 :: rat
  concentration_top10 :: rat
  herfindahl_index :: rat
  position_count_prev :: nat
  position_count_now :: nat
  gross_adds_value :: int
  gross_cuts_value :: int

section \<open>The diff engine\<close>

text \<open>
  \<^verbatim>\<open>_holding_key\<close>: the f-string \<^verbatim>\<open>f"{h.cusip}|{h.title_of_class}|{put_call}"\<close> with
  \<^verbatim>\<open>put_call = h.put_call or "NONE"\<close>; an empty string is falsy, as \<^verbatim>\<open>None\<close> is.
\<close>

definition holding_key :: "HoldingRecord \<Rightarrow> string" where
  "holding_key h =
     h_cusip h @ ''|'' @ h_title_of_class h @ ''|'' @
     (case h_put_call h of None \<Rightarrow> ''NONE'' | Some s \<Rightarrow> if s = [] then ''NONE'' else s)"

text \<open>\<^verbatim>\<open>_is_starter(weight, value, config)\<close>.\<close>

definition is_starter_fn :: "rat option \<Rightarrow> int option \<Rightarrow> Config \<Rightarrow> bool" where
  "is_starter_fn weight val config =
     (if val \<noteq> None \<and> the val < starter_value_threshold config then True
      else if weight \<noteq> None then
        (if starter_weight_min config \<le> the weight \<and> the weight \<le> starter_weight_max config
         then True else False)
      else False)"

text \<open>
  The dict comprehension \<^verbatim>\<open>{_holding_key(h): h for h in holdings}\<close>: a later holding with
  the same key replaces an earlier one.
\<close>

definition by_key :: "HoldingRecord list \<Rightarrow> (string \<rightharpoonup> HoldingRecord)" where
  "by_key hs = foldl (\<lambda>m h. m(holding_key h \<mapsto> h)) Map.empty hs"

text \<open>\<^verbatim>\<open>x or 0\<close> on an optional int.\<close>

definition or_zero :: "int option \<Rightarrow> int" where
  "or_zero v = (case v of None \<Rightarrow> 0 | Some x \<Rightarrow> x)"

text \<open>
  \<^verbatim>\<open>(value / total) if value and total else None\<close>: the value is falsy when it is
  \<^verbatim>\<open>None\<close> and when it is \<open>0\<close>.
\<close>

definition weight_of :: "int option \<Rightarrow> int \<Rightarrow> py_error + rat option" where
  "weight_of v period_total =
     (case v of
        None \<Rightarrow> Inr None
      | Some x \<Rightarrow>
          if x \<noteq> 0 \<and> period_total \<noteq> 0 then bind_err (truediv x period_total) (\<lambda>q. Inr (Some q))
          else Inr None)"

text \<open>
  \<^verbatim>\<open>growth_rate = None; if prev_value and prev_value > 0 and now_value is not None: ...\<close>
\<close>

definition growth_of :: "int option \<Rightarrow> int option \<Rightarrow> py_error + rat option" where
  "growth_of prev_value now_value =
     (case prev_value of
        None \<Rightarrow> Inr None
      | Some p \<Rightarrow>
          if p \<noteq> 0 \<and> p > 0 \<and> now_value \<noteq> None
          then bind_err (truediv (the now_value - p) p) (\<lambda>q. Inr (Some q))
          else Inr None)"

text \<open>\<^verbatim>\<open>portfolio_impact = None; if total_prev > 0: portfolio_impact = delta_value / total_prev\<close>\<close>

definition impact_of :: "int \<Rightarrow> int \<Rightarrow> py_error + rat option" where
  "impact_of delta_value total_prev =
     (if total_prev > 0 then bind_err (truediv delta_value total_prev) (\<lambda>q. Inr (Some q))
      else Inr None)"

text \<open>The \<^verbatim>\<open>if/elif\<close> chain that classifies a position, in the order of the source.\<close>

definition classify :: "HoldingRecord option \<Rightarrow> HoldingRecord option \<Rightarrow> int \<Rightarrow> ChangeType" where
  "classify h_prev h_now delta_value =
     (if h_prev = None \<and> h_now \<noteq> None then NEW
      else if h_prev \<noteq> None \<and> h_now = None then EXIT
      else if delta_value > 0 then INCREASE
      else if delta_value < 0 then DECREASE
      else UNCHANGED)"

text \<open>
  The body of the loop \<^verbatim>\<open>for key in all_keys\<close>: one \<^verbatim>\<open>PositionDiff\<close> for one key.
  \<^verbatim>\<open>ref = h_now or h_prev\<close> is \<^verbatim>\<open>None\<close> when the key is on neither side, and reading
  \<^verbatim>\<open>ref.cusip\<close> then raises \<^verbatim>\<open>AttributeError\<close>.
\<close>

definition position_diff ::
  "(string \<rightharpoonup> HoldingRecord) \<Rightarrow> (string \<rightharpoonup> HoldingRecord) \<Rightarrow> int \<Rightarrow> int \<Rightarrow> Config \<Rightarrow> string
     \<Rightarrow> py_error + PositionDiff" where
  "position_diff prev_by_key now_by_key total_prev total_now config key =
     (let h_prev = prev_by_key key;
          h_now = now_by_key key;
          prev_value = map_option h_value_usd h_prev;
          now_value = map_option h_value_usd h_now;
          prev_sh = map_option h_shares_or_principal h_prev;
          now_sh = map_option h_shares_or_principal h_now;
          delta_value = or_zero now_value - or_zero prev_value;
          delta_sh = or_zero now_sh - or_zero prev_sh
      in
      bind_err (weight_of prev_value total_prev) (\<lambda>prev_w.
      bind_err (weight_of now_value total_now) (\<lambda>now_w.
      bind_err (growth_of prev_value now_value) (\<lambda>growth.
      bind_err (impact_of delta_value total_prev) (\<lambda>impact.
        let ct = classify h_prev h_now delta_value;
            starter = is_starter_fn now_w now_value config
        in
        case (case h_now of Some h \<Rightarrow> Some h | None \<Rightarrow> h_prev) of
          None \<Rightarrow> Inl AttributeError
        | Some ref \<Rightarrow>
            Inr \<lparr> cusip = h_cusip ref,
                  issuer_name = h_issuer_name ref,
                  title_of_class = h_title_of_class ref,
                  prev_value_usd = prev_value,
                  now_value_usd = now_value,
                  delta_value_usd = delta_value,
                  prev_shares = prev_sh,
                  now_shares = now_sh,
                  delta_shares = delta_sh,
                  prev_weight = prev_w,
                  now_weight = now_w,
                  growth_rate = growth,
                  portfolio_impact = impact,
                  change_type = ct,
                  is_starter = starter,
                  put_call = h_put_call ref \<rparr>)))))"

text \<open>The loop itself: the first error ends it.\<close>

fun diffs_loop ::
  "(string \<rightharpoonup> HoldingRecord) \<Rightarrow> (string \<rightharpoonup> HoldingRecord) \<Rightarrow> int \<Rightarrow> int \<Rightarrow> Config \<Rightarrow> string list
     \<Rightarrow> py_error + PositionDiff list" where
  "diffs_loop pk nk tp tn config [] = Inr []"
| "diffs_loop pk nk tp tn config (key # keys) =
     bind_err (position_diff pk nk tp tn config key) (\<lambda>d.
     bind_err (diffs_loop pk nk tp tn config keys) (\<lambda>ds. Inr (d # ds)))"

text \<open>
  \<^verbatim>\<open>[(h.value_usd / total_now) for h in holdings_now if total_now > 0]\<close>: the filter is
  evaluated for every holding, before the division.
\<close>

fun weights_loop :: "int \<Rightarrow> HoldingRecord list \<Rightarrow> py_error + rat list" where
  "weights_loop total_now [] = Inr []"
| "weights_loop total_now (h # hs) =
     (if total_now > 0
      then bind_err (truediv (h_value_usd h) total_now) (\<lambda>w.
           bind_err (weights_loop total_now hs) (\<lambda>ws. Inr (w # ws)))
      else weights_loop total_now hs)"

text \<open>
  \<^verbatim>\<open>sorted(xs, key=f)\<close> is a stable ascending sort, as \<^const>\<open>sort_key\<close> is;
  \<^verbatim>\<open>sorted(xs, key=f, reverse=True)\<close> is the stable sort by descending key (elements
  with equal keys keep their order).
\<close>

definition sorted_desc :: "('a \<Rightarrow> 'k::{linorder, uminus}) \<Rightarrow> 'a list \<Rightarrow> 'a list" where
  "sorted_desc f xs = sort_key (\<lambda>x. - f x) xs"

text \<open>\<^verbatim>\<open>d.growth_rate or 0\<close>, \<^verbatim>\<open>d.portfolio_impact or 0\<close>.\<close>

definition or_zero_rat :: "rat option \<Rightarrow> rat" where
  "or_zero_rat v = (case v of None \<Rightarrow> 0 | Some x \<Rightarrow> x)"

text \<open>\<^verbatim>\<open>sum(ws[:n]) if len(ws) >= n else sum(ws)\<close>\<close>

definition concentration :: "nat \<Rightarrow> rat list \<Rightarrow> rat" where
  "concentration n ws = (if length ws \<ge> n then sum_list (take n ws) else sum_list ws)"

text \<open>
  \<^verbatim>\<open>compute_quarter_diff\<close>. The two database reads are the two lists of holdings, and the
  two filings give the two periods. \<^verbatim>\<open>all_keys\<close> is a Python set, and the order in which
  the loop visits it is not fixed by the language: the model takes it as the first
  argument, a list \<open>all_keys\<close> that \<open>key_order\<close> below constrains.
\<close>

definition compute_quarter_diff ::
  "string list \<Rightarrow> int \<Rightarrow> string \<Rightarrow> string \<Rightarrow> string \<Rightarrow> HoldingRecord list \<Rightarrow> HoldingRecord list
     \<Rightarrow> Config \<Rightarrow> py_error + QuarterDiff" where
  "compute_quarter_diff all_keys fid fname period_prev period_now holdings_prev holdings_now config =
     (let total_prev = sum_list (map h_value_usd holdings_prev);
          total_now = sum_list (map h_value_usd holdings_now);
          prev_by_key = by_key holdings_prev;
          now_by_key = by_key holdings_now
      in
      bind_err (diffs_loop prev_by_key now_by_key total_prev total_now config all_keys) (\<lambda>diffs.
        let new_positions' = filter (\<lambda>d. change_type d = NEW) diffs;
            sold_out' = filter (\<lambda>d. change_type d = EXIT) diffs;
            increased' = filter (\<lambda>d. change_type d = INCREASE) diffs;
            decreased' = filter (\<lambda>d. change_type d = DECREASE) diffs;
            unchanged' = filter (\<lambda>d. change_type d = UNCHANGED) diffs;
            adds = filter (\<lambda>d. delta_value_usd d > 0) diffs;
            cuts = filter (\<lambda>d. delta_value_usd d < 0) diffs;
            adds_with_growth = filter (\<lambda>d. growth_rate d \<noteq> None \<and> change_type d \<noteq> NEW) adds;
            cuts_with_growth = filter (\<lambda>d. growth_rate d \<noteq> None) cuts;
            adds_with_impact = filter (\<lambda>d. portfolio_impact d \<noteq> None) adds;
            cuts_with_impact = filter (\<lambda>d. portfolio_impact d \<noteq> None) cuts;
            new_starters' = filter is_starter new_positions';
            increased_starters' =
              filter (\<lambda>d. is_starter d \<and>
                        ((growth_rate d \<noteq> None \<and> the (growth_rate d) \<ge> 1) \<or>
                         (portfolio_impact d \<noteq> None \<and> the (portfolio_impact d) \<ge> 5 / 10000)))
                increased'
        in
        bind_err (weights_loop total_now holdings_now) (\<lambda>raw_weights.
          let weights_now = sorted_desc (\<lambda>w. w) raw_weights;
              herfindahl = (if weights_now \<noteq> [] then sum_list (map (\<lambda>w. w * w) weights_now) else 0)
          in
          Inr \<lparr> fund_id = fid,
                fund_name = fname,
                period_from = period_prev,
                period_to = period_now,
                total_portfolio_prev = total_prev,
                total_portfolio_now = total_now,
                new_positions = new_positions',
                sold_out = sold_out',
                increased = increased',
                decreased = decreased',
                unchanged = unchanged',
                top_adds_by_value = take 10 (sorted_desc delta_value_usd adds),
                top_cuts_by_value = take 10 (sort_key delta_value_usd cuts),
                top_adds_by_growth_rate =
                  take 10 (sorted_desc (\<lambda>d. or_zero_rat (growth_rate d)) adds_with_growth),
                top_cuts_by_growth_rate =
                  take 10 (sort_key (\<lambda>d. or_zero_rat (growth_rate d)) cuts_with_growth),
                top_adds_by_portfolio_impact =
                  take 10 (sorted_desc (\<lambda>d. or_zero_rat (portfolio_impact d)) adds_with_impact),
                top_cuts_by_portfolio_impact =
                  take 10 (sort_key (\<lambda>d. or_zero_rat (portfolio_impact d)) cuts_with_impact),
                new_starters = new_starters',
                increased_starters = increased_starters',
                concentration_top5 = concentration 5 weights_now,
                concentration_top10 = concentration 10 weights_now,
                herfindahl_index = herfindahl,
                position_count_prev = length holdings_prev,
                position_count_now = length holdings_now,
                gross_adds_value = sum_list (map delta_value_usd adds),
                gross_cuts_value = sum_list (map (\<lambda>d. \<bar>delta_value_usd d\<bar>) cuts) \<rparr>)))"

text \<open>
  What Python guarantees of the iteration over
  \<^verbatim>\<open>set(prev_by_key.keys()) | set(now_by_key.keys())\<close>: every key of either side, once.
\<close>

definition key_order :: "string list \<Rightarrow> HoldingRecord list \<Rightarrow> HoldingRecord list \<Rightarrow> bool" where
  "key_order all_keys holdings_prev holdings_now \<longleftrightarrow>
     distinct all_keys \<and> set all_keys = dom (by_key holdings_prev) \<union> dom (by_key holdings_now)"

text \<open>
  \<^verbatim>\<open>compute_all_diffs\<close>: the filings of a fund come most recent first, each with its period
  and its holdings; adjacent filings are diffed, \<^verbatim>\<open>filings[i]\<close> against \<^verbatim>\<open>filings[i + 1]\<close>.
  The first argument gives, for the two sides of a diff, the order in which the interpreter
  iterates over their \<^verbatim>\<open>all_keys\<close>.
\<close>

fun all_diffs_loop ::
  "(HoldingRecord list \<Rightarrow> HoldingRecord list \<Rightarrow> string list) \<Rightarrow> int \<Rightarrow> string
     \<Rightarrow> (string \<times> HoldingRecord list) list \<Rightarrow> Config \<Rightarrow> py_error + QuarterDiff list" where
  "all_diffs_loop key_iter fid fname (filing_now # filing_prev # older) config =
     bind_err (compute_quarter_diff (key_iter (snd filing_prev) (snd filing_now)) fid fname
                 (fst filing_prev) (fst filing_now) (snd filing_prev) (snd filing_now) config)
       (\<lambda>d.
     bind_err (all_diffs_loop key_iter fid fname (filing_prev # older) config)
       (\<lambda>ds. Inr (d # ds)))"
| "all_diffs_loop key_iter fid fname filings config = Inr []"

definition compute_all_diffs ::
  "(HoldingRecord list \<Rightarrow> HoldingRecord list \<Rightarrow> string list) \<Rightarrow> int \<Rightarrow> string
     \<Rightarrow> (string \<times> HoldingRecord list) list \<Rightarrow> Config \<Rightarrow> py_error + QuarterDiff list" where
  "compute_all_diffs key_iter fid fname filings config =
     (if length filings < 2 then Inr [] else all_diffs_loop key_iter fid fname filings config)"

text \<open>
  One such order: the keys as they are first seen, the prior side before the current side.
\<close>

definition first_seen_keys :: "HoldingRecord list \<Rightarrow> HoldingRecord list \<Rightarrow> string list" where
  "first_seen_keys holdings_prev holdings_now =
     rev (remdups (rev (map holding_key holdings_prev @ map holding_key holdings_now)))"

section \<open>The signal detector\<close>

datatype detail = DInt int | DFloat rat | DStr string

record Signal =
  signal_type :: string
  description :: string
  holdings :: "string list"
  quarters :: "string list"
  strength :: string
  details :: "(string \<times> detail) list"

text \<open>One entry of a position's history: \<^verbatim>\<open>(period, value, weight, change_type)\<close>.\<close>

type_synonym hist_entry = "string \<times> int option \<times> rat option \<times> ChangeType"

text \<open>What an f-string prints for a non-negative int.\<close>

definition digit_char :: "nat \<Rightarrow> char" where
  "digit_char n = ''0123456789'' ! n"

fun str_nat :: "nat \<Rightarrow> string" where
  "str_nat n = (if n < 10 then [digit_char n] else str_nat (n div 10) @ [digit_char (n mod 10)])"

declare str_nat.simps [simp del]

text \<open>
  The format \<^verbatim>\<open>{x:.1%}\<close> of a non-negative number: a hundred times \<open>x\<close>, to one decimal,
  a tie going to the even digit.
\<close>

definition round_half_even :: "rat \<Rightarrow> int" where
  "round_half_even q =
     (let f = \<lfloor>q\<rfloor>; r = q - of_int f
      in if r < 1 / 2 then f else if r > 1 / 2 then f + 1 else if even f then f else f + 1)"

definition fmt_percent1 :: "rat \<Rightarrow> string" where
  "fmt_percent1 x =
     (let n = nat (round_half_even (x * 1000))
      in str_nat (n div 10) @ ''.'' @ str_nat (n mod 10) @ ''%'')"

text \<open>
  A Python dict iterates in insertion order, so the dicts that are iterated are association
  lists without duplicate keys. \<^verbatim>\<open>if key not in d: d[key] = []\<close> followed by
  \<^verbatim>\<open>d[key].append(v)\<close>:
\<close>

definition dict_append :: "'k \<Rightarrow> 'v \<Rightarrow> ('k \<times> 'v list) list \<Rightarrow> ('k \<times> 'v list) list" where
  "dict_append key v d =
     (let d' = (if key \<notin> set (map fst d) then d @ [(key, [])] else d)
      in map (\<lambda>(k, vs). if k = key then (k, vs @ [v]) else (k, vs)) d')"

definition all_positions :: "QuarterDiff \<Rightarrow> PositionDiff list" where
  "all_positions diff =
     new_positions diff @ increased diff @ decreased diff @ unchanged diff @ sold_out diff"

definition position_history :: "QuarterDiff list \<Rightarrow> (string \<times> hist_entry list) list" where
  "position_history qdiffs =
     foldl (\<lambda>ph diff.
              foldl (\<lambda>ph pos.
                       dict_append (cusip pos)
                         (period_to diff, now_value_usd pos, now_weight pos, change_type pos) ph)
                ph (all_positions diff))
       [] (rev qdiffs)"

definition cusip_to_name :: "QuarterDiff list \<Rightarrow> (string \<rightharpoonup> string)" where
  "cusip_to_name qdiffs =
     foldl (\<lambda>m diff.
              foldl (\<lambda>m pos. m(cusip pos \<mapsto> issuer_name pos))
                m (new_positions diff @ increased diff @ decreased diff))
       Map.empty qdiffs"

text \<open>\<^verbatim>\<open>cusip_to_name.get(cusip, cusip)\<close>\<close>

definition name_of :: "(string \<rightharpoonup> string) \<Rightarrow> string \<Rightarrow> string" where
  "name_of names c = (case names c of None \<Rightarrow> c | Some n \<Rightarrow> n)"

text \<open>The slice \<^verbatim>\<open>xs[-n:]\<close> for \<open>n \<ge> 0\<close>; \<^verbatim>\<open>xs[-0:]\<close> is the whole list.\<close>

definition last_n :: "nat \<Rightarrow> 'a list \<Rightarrow> 'a list" where
  "last_n n xs = (if n = 0 then xs else drop (length xs - n) xs)"

subsection \<open>1. Consistent accumulator\<close>

text \<open>
  The inner loop over one history, with its three variables
  \<^verbatim>\<open>consecutive_increases\<close>, \<^verbatim>\<open>max_consecutive\<close>, \<^verbatim>\<open>increase_quarters\<close>.
\<close>

fun accumulator_scan ::
  "hist_entry list \<Rightarrow> nat \<Rightarrow> nat \<Rightarrow> string list \<Rightarrow> nat \<times> nat \<times> string list" where
  "accumulator_scan [] consecutive_increases max_consecutive increase_quarters =
     (consecutive_increases, max_consecutive, increase_quarters)"
| "accumulator_scan ((period, val, weight, ct) # rest)
       consecutive_increases max_consecutive increase_quarters =
     (if ct = INCREASE
      then accumulator_scan rest (consecutive_increases + 1) max_consecutive
             (increase_quarters @ [period])
      else accumulator_scan rest 0 (max max_consecutive consecutive_increases) [])"

definition consistent_accumulator ::
  "(string \<rightharpoonup> string) \<Rightarrow> string \<times> hist_entry list \<Rightarrow> Signal list" where
  "consistent_accumulator names item =
     (case item of (c, history) \<Rightarrow>
        (case accumulator_scan history 0 0 [] of
           (consecutive_increases, max_consecutive0, increase_quarters) \<Rightarrow>
             let max_consecutive = max max_consecutive0 consecutive_increases in
             if max_consecutive \<ge> 3
             then [\<lparr> signal_type = ''consistent_accumulator'',
                     description = name_of names c @ '' increased '' @ str_nat max_consecutive
                                   @ '' consecutive quarters'',
                     holdings = [name_of names c],
                     quarters = last_n max_consecutive increase_quarters,
                     strength = (if max_consecutive \<ge> 4 then ''strong'' else ''moderate''),
                     details = [(''consecutive_increases'', DInt (int max_consecutive))] \<rparr>]
             else []))"

subsection \<open>2. Build then trim\<close>

text \<open>
  The loop with \<^verbatim>\<open>build_quarters\<close> and \<^verbatim>\<open>in_build_phase\<close>; it stops at the first match,
  which is the build quarters and the period of the trim.
\<close>

fun build_trim_scan ::
  "hist_entry list \<Rightarrow> string list \<Rightarrow> bool \<Rightarrow> (string list \<times> string) option" where
  "build_trim_scan [] build_quarters in_build_phase = None"
| "build_trim_scan ((period, val, weight, ct) # rest) build_quarters in_build_phase =
     (if ct = INCREASE then build_trim_scan rest (build_quarters @ [period]) True
      else if ct = DECREASE \<and> in_build_phase \<and> length build_quarters \<ge> 2
      then Some (build_quarters, period)
      else build_trim_scan rest [] False)"

definition build_then_trim ::
  "(string \<rightharpoonup> string) \<Rightarrow> string \<times> hist_entry list \<Rightarrow> Signal list" where
  "build_then_trim names item =
     (case item of (c, history) \<Rightarrow>
        if length history < 3 then []
        else (case build_trim_scan history [] False of
                None \<Rightarrow> []
              | Some (build_quarters, period) \<Rightarrow>
                  [\<lparr> signal_type = ''build_then_trim'',
                     description = name_of names c @ '' built for ''
                                   @ str_nat (length build_quarters) @ '' quarters then trimmed'',
                     holdings = [name_of names c],
                     quarters = build_quarters @ [period],
                     strength = ''moderate'',
                     details = [(''build_quarters'', DInt (int (length build_quarters)))] \<rparr>]))"

subsection \<open>3. One-quarter probe\<close>

text \<open>
  For a \<^verbatim>\<open>NEW\<close> entry at index \<open>i\<close>, the inner loop over
  \<^verbatim>\<open>range(i + 1, min(i + 3, len(history)))\<close> stops at the first \<^verbatim>\<open>EXIT\<close>.
\<close>

definition probe_at :: "(string \<rightharpoonup> string) \<Rightarrow> string \<Rightarrow> hist_entry list \<Rightarrow> nat \<Rightarrow> Signal list" where
  "probe_at names c history i =
     (if snd (snd (snd (history ! i))) = NEW
      then (case find (\<lambda>j. snd (snd (snd (history ! j))) = EXIT)
                   [i + 1 ..< min (i + 3) (length history)] of
              None \<Rightarrow> []
            | Some j \<Rightarrow>
                [\<lparr> signal_type = ''one_quarter_probe'',
                   description = name_of names c @ '' opened and closed within ''
                                 @ str_nat (j - i + 1) @ '' quarters'',
                   holdings = [name_of names c],
                   quarters = [fst (history ! i), fst (history ! j)],
                   strength = ''weak'',
                   details = [(''quarters_held'', DInt (int (j - i + 1)))] \<rparr>])
      else [])"

definition one_quarter_probe ::
  "(string \<rightharpoonup> string) \<Rightarrow> string \<times> hist_entry list \<Rightarrow> Signal list" where
  "one_quarter_probe names item =
     (case item of (c, history) \<Rightarrow> concat (map (probe_at names c history) [0 ..< length history]))"

subsection \<open>4. Concentration shift\<close>

definition concentration_shift :: "QuarterDiff list \<Rightarrow> Signal list" where
  "concentration_shift qdiffs =
     (if length qdiffs \<ge> 2
      then (let newest = hd qdiffs;
                oldest = last qdiffs;
                conc_change = \<bar>concentration_top5 newest - concentration_top5 oldest\<bar>
            in if conc_change \<ge> 5 / 100
               then (let direction =
                           (if concentration_top5 newest > concentration_top5 oldest
                            then ''increased'' else ''decreased'')
                     in [\<lparr> signal_type = ''concentration_shift'',
                            description = ''Top-5 concentration '' @ direction @ '' by ''
                                          @ fmt_percent1 conc_change,
                            holdings = [],
                            quarters = [period_to oldest, period_to newest],
                            strength = (if conc_change < 10 / 100 then ''moderate'' else ''strong''),
                            details = [(''concentration_change'', DFloat conc_change),
                                       (''direction'', DStr direction),
                                       (''from'', DFloat (concentration_top5 oldest)),
                                       (''to'', DFloat (concentration_top5 newest))] \<rparr>])
               else [])
      else [])"

subsection \<open>5. Theme emergence\<close>

text \<open>
  \<^verbatim>\<open>assign_cluster\<close> (\<^verbatim>\<open>analysis/clustering.py\<close>) looks an issuer name up in a table of
  keywords. The detector only calls it, so it is a parameter here, and everything below
  holds for every table.
\<close>

definition theme_emergence :: "(string \<Rightarrow> string) \<Rightarrow> QuarterDiff \<Rightarrow> Signal list" where
  "theme_emergence assign_cluster diff =
     (let cluster_starters =
            foldl (\<lambda>cs pos.
                     let cluster = assign_cluster (issuer_name pos)
                     in if cluster \<noteq> ''Other'' then dict_append cluster (issuer_name pos) cs else cs)
              [] (new_starters diff)
      in concat (map (\<lambda>(cluster, starters).
                        if length starters \<ge> 3
                        then [\<lparr> signal_type = ''theme_emergence'',
                                description = str_nat (length starters) @ '' new starters in ''
                                              @ cluster,
                                holdings = starters,
                                quarters = [period_to diff],
                                strength = (if length starters < 5 then ''moderate'' else ''strong''),
                                details = [(''cluster'', DStr cluster),
                                           (''count'', DInt (int (length starters)))] \<rparr>]
                        else [])
                   cluster_starters))"

subsection \<open>The detector\<close>

text \<open>\<^verbatim>\<open>strength_order.get(s.strength, 3)\<close>\<close>

definition strength_order :: "string \<Rightarrow> nat" where
  "strength_order s =
     (if s = ''strong'' then 0 else if s = ''moderate'' then 1 else if s = ''weak'' then 2 else 3)"

definition detect_signals :: "(string \<Rightarrow> string) \<Rightarrow> QuarterDiff list \<Rightarrow> Signal list" where
  "detect_signals assign_cluster qdiffs =
     (if qdiffs = [] then []
      else (let history = position_history qdiffs;
                names = cusip_to_name qdiffs;
                signals =
                  concat (map (consistent_accumulator names) history)
                  @ concat (map (build_then_trim names) history)
                  @ concat (map (one_quarter_probe names) history)
                  @ concentration_shift qdiffs
                  @ concat (map (theme_emergence assign_cluster) qdiffs)
            in sort_key (\<lambda>s. strength_order (strength s)) signals))"

text \<open>
  The two calls of the fund report (\<^verbatim>\<open>reports/fund_report.py\<close>):
  \<^verbatim>\<open>diffs = compute_all_diffs(...)\<close>, then \<^verbatim>\<open>signals = detect_signals(diffs)\<close>.
\<close>

definition fund_signals ::
  "(string \<Rightarrow> string) \<Rightarrow> (HoldingRecord list \<Rightarrow> HoldingRecord list \<Rightarrow> string list) \<Rightarrow> int
     \<Rightarrow> string \<Rightarrow> (string \<times> HoldingRecord list) list \<Rightarrow> Config \<Rightarrow> py_error + Signal list" where
  "fund_signals assign_cluster key_iter fid fname filings config =
     bind_err (compute_all_diffs key_iter fid fname filings config)
       (\<lambda>qdiffs. Inr (detect_signals assign_cluster qdiffs))"

subsection \<open>Starter-to-scale\<close>

text \<open>The growth rate of a scaled position is a quotient or \<^verbatim>\<open>float("inf")\<close>.\<close>

datatype growth = Finite rat | Infinity

fun growth_less :: "growth \<Rightarrow> growth \<Rightarrow> bool" where
  "growth_less (Finite a) (Finite b) = (a < b)"
| "growth_less (Finite a) Infinity = True"
| "growth_less Infinity g = False"

text \<open>The dicts that \<^verbatim>\<open>detect_starter_to_scale\<close> returns.\<close>

record ScaledPosition =
  sp_issuer_name :: string
  sp_cusip :: string
  sp_start_period :: string
  sp_start_value :: int
  sp_start_weight :: rat
  sp_current_value :: int
  sp_current_weight :: rat
  sp_growth_rate :: growth

text \<open>
  \<^verbatim>\<open>scaled_positions.sort(key=lambda x: x["growth_rate"], reverse=True)\<close>: a stable sort by
  descending growth rate, as an insertion sort from the right.
\<close>

fun insert_by_growth :: "ScaledPosition \<Rightarrow> ScaledPosition list \<Rightarrow> ScaledPosition list" where
  "insert_by_growth x [] = [x]"
| "insert_by_growth x (y # ys) =
     (if growth_less (sp_growth_rate x) (sp_growth_rate y) then y # insert_by_growth x ys
      else x # y # ys)"

definition sort_by_growth_desc :: "ScaledPosition list \<Rightarrow> ScaledPosition list" where
  "sort_by_growth_desc xs = foldr insert_by_growth xs []"

text \<open>
  \<^verbatim>\<open>starter_positions\<close>: the first time a cusip is a new starter, oldest diff first.
\<close>

definition starter_positions ::
  "QuarterDiff list \<Rightarrow> (string \<times> (string \<times> string \<times> int \<times> rat)) list" where
  "starter_positions qdiffs =
     foldl (\<lambda>sp diff.
              foldl (\<lambda>sp pos.
                       if cusip pos \<notin> set (map fst sp)
                       then sp @ [(cusip pos,
                                   (issuer_name pos, period_to diff,
                                    or_zero (now_value_usd pos), or_zero_rat (now_weight pos)))]
                       else sp)
                sp (new_starters diff))
       [] (rev qdiffs)"

definition all_current :: "QuarterDiff \<Rightarrow> (string \<rightharpoonup> PositionDiff)" where
  "all_current latest_diff =
     foldl (\<lambda>m pos. m(cusip pos \<mapsto> pos)) Map.empty
       (new_positions latest_diff @ increased latest_diff @ decreased latest_diff
        @ unchanged latest_diff)"

fun scaled_loop ::
  "(string \<rightharpoonup> PositionDiff) \<Rightarrow> (string \<times> (string \<times> string \<times> int \<times> rat)) list
     \<Rightarrow> py_error + ScaledPosition list" where
  "scaled_loop cur [] = Inr []"
| "scaled_loop cur ((c, (name, start_period, start_value, start_weight)) # rest) =
     (case cur c of
        None \<Rightarrow> scaled_loop cur rest
      | Some current \<Rightarrow>
          (let now_w = or_zero_rat (now_weight current);
               now_v = or_zero (now_value_usd current)
           in if now_w > 5 / 1000 \<or> now_v > 20000000
              then bind_err (if start_value > 0
                             then bind_err (truediv (now_v - start_value) start_value)
                                    (\<lambda>q. Inr (Finite q))
                             else Inr Infinity) (\<lambda>g.
                   bind_err (scaled_loop cur rest) (\<lambda>more.
                     Inr (\<lparr> sp_issuer_name = name,
                             sp_cusip = c,
                             sp_start_period = start_period,
                             sp_start_value = start_value,
                             sp_start_weight = start_weight,
                             sp_current_value = now_v,
                             sp_current_weight = now_w,
                             sp_growth_rate = g \<rparr> # more)))
              else scaled_loop cur rest))"

definition detect_starter_to_scale :: "QuarterDiff list \<Rightarrow> py_error + ScaledPosition list" where
  "detect_starter_to_scale qdiffs =
     (if length qdiffs < 2 then Inr []
      else bind_err (scaled_loop (all_current (qdiffs ! 0)) (starter_positions qdiffs))
             (\<lambda>scaled_positions. Inr (sort_by_growth_desc scaled_positions)))"

section \<open>The concentration diagnostics in double precision\<close>

text \<open>
  A Python \<^verbatim>\<open>float\<close> is an IEEE 754 binary64 number: 53 significant bits, binary exponents
  from -1022 to 1023, subnormal numbers below, rounding to the nearest number with a tie
  going to the even significand. A finite double is modelled by the rational that it
  denotes (the two zeros are one value: nothing below tells them apart).

  The binary exponent of a positive rational \<open>x\<close>, the \<open>e\<close> with \<open>2 ^ e \<le> x < 2 ^ (e + 1)\<close>, is
  one of the two candidates that the bit lengths of numerator and denominator leave.
\<close>

definition ilog2 :: "rat \<Rightarrow> int" where
  "ilog2 x = (let (a, b) = quotient_of x; e = bitlen a - bitlen b
              in if 2 powi e \<le> x then e else e - 1)"

text \<open>The subnormal numbers share the exponent -1022.\<close>

definition expo :: "rat \<Rightarrow> int" where
  "expo x = max (ilog2 \<bar>x\<bar>) (- 1022)"

text \<open>The distance between neighbouring doubles of the exponent of \<open>x\<close>.\<close>

definition quantum :: "rat \<Rightarrow> rat" where
  "quantum x = 2 powi (expo x - 52)"

definition round_to :: "rat \<Rightarrow> rat \<Rightarrow> rat" where
  "round_to q x = q * of_int (round_half_even (x / q))"

text \<open>
  The double nearest to a rational, the exponent not yet bounded from above; a result of
  exponent 1024 or more is out of range.
\<close>

definition round_double :: "rat \<Rightarrow> rat" where
  "round_double x = (if x = 0 then 0 else round_to (quantum x) x)"

definition overflows :: "rat \<Rightarrow> bool" where
  "overflows r \<longleftrightarrow> r \<noteq> 0 \<and> 1024 \<le> ilog2 \<bar>r\<bar>"

text \<open>
  \<^verbatim>\<open>a / b\<close> of two ints is the exact quotient rounded once; it raises
  \<^verbatim>\<open>ZeroDivisionError\<close> for a zero divisor and \<^verbatim>\<open>OverflowError\<close> (integer division result too
  large for a float) when the rounded quotient is out of range.
\<close>

definition truediv_double :: "int \<Rightarrow> int \<Rightarrow> py_error + rat" where
  "truediv_double a b =
     (if b = 0 then Inl ZeroDivisionError
      else let r = round_double (rat_of_int a / rat_of_int b)
           in if overflows r then Inl OverflowError else Inr r)"

text \<open>
  \<^verbatim>\<open>s + w\<close> of two floats is the exact sum rounded once, and an infinity when that is out
  of range. The items that are added below are finite, so an infinite sum stays what it is.
\<close>

datatype pyfloat = Float rat | PosInf | NegInf

definition overflow_to_inf :: "rat \<Rightarrow> pyfloat" where
  "overflow_to_inf r = (if overflows r then (if 0 < r then PosInf else NegInf) else Float r)"

fun float_add :: "pyfloat \<Rightarrow> rat \<Rightarrow> pyfloat" where
  "float_add (Float a) b = overflow_to_inf (round_double (a + b))"
| "float_add PosInf b = PosInf"
| "float_add NegInf b = NegInf"

text \<open>
  \<^verbatim>\<open>sum(ws)\<close> of a list of floats starts from the int 0 and adds the items from left to
  right, one rounded addition for each item. (This is the loop of CPython up to 3.11. From
  3.12 on, \<^verbatim>\<open>sum\<close> carries a compensation term along the floats; that variant is not
  modelled.)
\<close>

definition py_sum :: "rat list \<Rightarrow> pyfloat" where
  "py_sum ws = foldl float_add (Float 0) ws"

text \<open>
  \<^verbatim>\<open>[(h.value_usd / total_now) for h in holdings_now if total_now > 0]\<close>, as \<open>weights_loop\<close>,
  with the quotients rounded.
\<close>

fun weights_loop_double :: "int \<Rightarrow> HoldingRecord list \<Rightarrow> py_error + rat list" where
  "weights_loop_double total_now [] = Inr []"
| "weights_loop_double total_now (h # hs) =
     (if total_now > 0
      then bind_err (truediv_double (h_value_usd h) total_now) (\<lambda>w.
           bind_err (weights_loop_double total_now hs) (\<lambda>ws. Inr (w # ws)))
      else weights_loop_double total_now hs)"

text \<open>\<^verbatim>\<open>sum(ws[:n]) if len(ws) >= n else sum(ws)\<close>\<close>

definition concentration_double :: "nat \<Rightarrow> rat list \<Rightarrow> pyfloat" where
  "concentration_double n ws = (if length ws \<ge> n then py_sum (take n ws) else py_sum ws)"

text \<open>
  The lines of \<^verbatim>\<open>compute_quarter_diff\<close> that compute the fields \<^verbatim>\<open>concentration_top5\<close> and
  \<^verbatim>\<open>concentration_top10\<close> of the result; they read the current holdings only:

  \<^verbatim>\<open>total_now = sum(h.value_usd for h in holdings_now)\<close>

  \<^verbatim>\<open>weights_now = sorted([...], reverse=True)\<close>

  \<^verbatim>\<open>concentration_top5 = sum(weights_now[:5]) if len(weights_now) >= 5 else sum(weights_now)\<close>

  \<^verbatim>\<open>concentration_top10 = sum(weights_now[:10]) if len(weights_now) >= 10 else sum(weights_now)\<close>
\<close>

definition concentration_diagnostics :: "HoldingRecord list \<Rightarrow> py_error + pyfloat \<times> pyfloat" where
  "concentration_diagnostics holdings_now =
     (let total_now = sum_list (map h_value_usd holdings_now)
      in bind_err (weights_loop_double total_now holdings_now) (\<lambda>raw_weights.
           let weights_now = sorted_desc (\<lambda>w. w) raw_weights
           in Inr (concentration_double 5 weights_now, concentration_double 10 weights_now)))"

section \<open>Auxiliary notions for the statements\<close>

text \<open>
  The matching key of the holding that a \<^verbatim>\<open>PositionDiff\<close> was built from: the engine copies
  \<^verbatim>\<open>cusip\<close>, \<^verbatim>\<open>title_of_class\<close> and \<^verbatim>\<open>put_call\<close> from that holding.
\<close>

definition position_key :: "PositionDiff \<Rightarrow> string" where
  "position_key d =
     cusip d @ ''|'' @ title_of_class d @ ''|'' @
     (case put_call d of None \<Rightarrow> ''NONE'' | Some s \<Rightarrow> if s = [] then ''NONE'' else s)"

text \<open>The option flag as it enters the matching key: \<^verbatim>\<open>h.put_call or "NONE"\<close>.\<close>

definition option_flag :: "string option \<Rightarrow> string" where
  "option_flag pc = (case pc of None \<Rightarrow> ''NONE'' | Some s \<Rightarrow> if s = [] then ''NONE'' else s)"

text \<open>The history entry that \<^verbatim>\<open>detect_signals\<close> records for a position of a diff.\<close>

definition entry_of :: "QuarterDiff \<Rightarrow> PositionDiff \<Rightarrow> hist_entry" where
  "entry_of diff pos = (period_to diff, now_value_usd pos, now_weight pos, change_type pos)"

text \<open>
  All positions of a sequence of diffs in the order in which the history is built: the
  diffs oldest first, and within a diff the order of \<^const>\<open>all_positions\<close>; each with its
  cusip and its history entry.
\<close>

definition traversal :: "QuarterDiff list \<Rightarrow> (string \<times> hist_entry) list" where
  "traversal qdiffs =
     concat (map (\<lambda>diff. map (\<lambda>pos. (cusip pos, entry_of diff pos)) (all_positions diff))
               (rev qdiffs))"

text \<open>
  The change types of a history, the statement that a history has \<open>n\<close> consecutive
  \<^verbatim>\<open>INCREASE\<close> entries, and the \<^verbatim>\<open>INCREASE\<close> entries at the end of a history.
\<close>

definition change_types :: "hist_entry list \<Rightarrow> ChangeType list" where
  "change_types h = map (\<lambda>e. snd (snd (snd e))) h"

definition has_increase_run :: "nat \<Rightarrow> hist_entry list \<Rightarrow> bool" where
  "has_increase_run n h \<longleftrightarrow> sublist (replicate n INCREASE) (change_types h)"

definition trailing_increases :: "hist_entry list \<Rightarrow> hist_entry list" where
  "trailing_increases h = rev (takeWhile (\<lambda>e. snd (snd (snd e)) = INCREASE) (rev h))"

section \<open>Concrete inputs\<close>

definition holding :: "string \<Rightarrow> string \<Rightarrow> string option \<Rightarrow> int \<Rightarrow> HoldingRecord" where
  "holding c name pc v =
     \<lparr> h_id = None, h_filing_id = 0, h_issuer_name = name, h_title_of_class = ''COM'',
       h_cusip = c, h_figi = None, h_value_thousands = v div 1000, h_value_usd = v,
       h_shares_or_principal = v div 10, h_shares_type = ''SH'', h_put_call = pc,
       h_investment_discretion = ''SOLE'', h_voting_sole = 0, h_voting_shared = 0,
       h_voting_none = 0 \<rparr>"

text \<open>The defaults of \<^verbatim>\<open>Config\<close>: 0.01\%, 0.25\% and \$5M.\<close>

definition ex_same :: "HoldingRecord list" where
  "ex_same = [holding ''A'' ''ACORP'' None 100, holding ''B'' ''BCORP'' (Some ''Call'') 50]"

definition default_config :: Config where
  "default_config =
     \<lparr> starter_weight_min = 1 / 10000, starter_weight_max = 25 / 10000,
       starter_value_threshold = 5000000 \<rparr>"

text \<open>
  A portfolio with a holding whose reported value is 0, unchanged from one quarter to the
  next, and the diff that the engine returns for it.
\<close>

definition ex_zero :: "HoldingRecord list" where
  "ex_zero = [holding ''B'' ''BCORP'' None 100, holding ''A'' ''ACORP'' None 0]"

definition ex_zero_B :: PositionDiff where
  "ex_zero_B =
     \<lparr> cusip = ''B'', issuer_name = ''BCORP'', title_of_class = ''COM'',
       prev_value_usd = Some 100, now_value_usd = Some 100, delta_value_usd = 0,
       prev_shares = Some 10, now_shares = Some 10, delta_shares = 0,
       prev_weight = Some 1, now_weight = Some 1, growth_rate = Some 0,
       portfolio_impact = Some 0, change_type = UNCHANGED, is_starter = True,
       put_call = None \<rparr>"

definition ex_zero_A :: PositionDiff where
  "ex_zero_A =
     \<lparr> cusip = ''A'', issuer_name = ''ACORP'', title_of_class = ''COM'',
       prev_value_usd = Some 0, now_value_usd = Some 0, delta_value_usd = 0,
       prev_shares = Some 0, now_shares = Some 0, delta_shares = 0,
       prev_weight = None, now_weight = None, growth_rate = None,
       portfolio_impact = Some 0, change_type = UNCHANGED, is_starter = True,
       put_call = None \<rparr>"

definition ex_zero_diff :: QuarterDiff where
  "ex_zero_diff =
     \<lparr> fund_id = 1, fund_name = ''FUND'', period_from = ''2024-03-31'',
       period_to = ''2024-06-30'', total_portfolio_prev = 100, total_portfolio_now = 100,
       new_positions = [], sold_out = [], increased = [], decreased = [],
       unchanged = [ex_zero_B, ex_zero_A],
       top_adds_by_value = [], top_cuts_by_value = [], top_adds_by_growth_rate = [],
       top_cuts_by_growth_rate = [], top_adds_by_portfolio_impact = [],
       top_cuts_by_portfolio_impact = [], new_starters = [], increased_starters = [],
       concentration_top5 = 1, concentration_top10 = 1, herfindahl_index = 1,
       position_count_prev = 2, position_count_now = 2,
       gross_adds_value = 0, gross_cuts_value = 0 \<rparr>"

text \<open>A position that is sold out, and the diff that the engine returns.\<close>

definition ex_exit_prev :: "HoldingRecord list" where
  "ex_exit_prev = [holding ''A'' ''ACORP'' None 100]"

definition ex_exit_A :: PositionDiff where
  "ex_exit_A =
     \<lparr> cusip = ''A'', issuer_name = ''ACORP'', title_of_class = ''COM'',
       prev_value_usd = Some 100, now_value_usd = None, delta_value_usd = - 100,
       prev_shares = Some 10, now_shares = None, delta_shares = - 10,
       prev_weight = Some 1, now_weight = None, growth_rate = None,
       portfolio_impact = Some (- 1), change_type = EXIT, is_starter = False,
       put_call = None \<rparr>"

definition ex_exit_diff :: QuarterDiff where
  "ex_exit_diff =
     \<lparr> fund_id = 1, fund_name = ''FUND'', period_from = ''2024-03-31'',
       period_to = ''2024-06-30'', total_portfolio_prev = 100, total_portfolio_now = 0,
       new_positions = [], sold_out = [ex_exit_A], increased = [], decreased = [],
       unchanged = [],
       top_adds_by_value = [], top_cuts_by_value = [ex_exit_A], top_adds_by_growth_rate = [],
       top_cuts_by_growth_rate = [], top_adds_by_portfolio_impact = [],
       top_cuts_by_portfolio_impact = [ex_exit_A], new_starters = [], increased_starters = [],
       concentration_top5 = 0, concentration_top10 = 0, herfindahl_index = 0,
       position_count_prev = 1, position_count_now = 0,
       gross_adds_value = 0, gross_cuts_value = 100 \<rparr>"

text \<open>
  A first filing: one small position, new and a starter by its value, with the whole
  weight of the portfolio.
\<close>

definition ex_first_A :: PositionDiff where
  "ex_first_A =
     \<lparr> cusip = ''A'', issuer_name = ''ACORP'', title_of_class = ''COM'',
       prev_value_usd = None, now_value_usd = Some 100, delta_value_usd = 100,
       prev_shares = None, now_shares = Some 10, delta_shares = 10,
       prev_weight = None, now_weight = Some 1, growth_rate = None,
       portfolio_impact = None, change_type = NEW, is_starter = True,
       put_call = None \<rparr>"

definition ex_first_diff :: QuarterDiff where
  "ex_first_diff =
     \<lparr> fund_id = 1, fund_name = ''FUND'', period_from = ''2024-03-31'',
       period_to = ''2024-06-30'', total_portfolio_prev = 0, total_portfolio_now = 100,
       new_positions = [ex_first_A], sold_out = [], increased = [], decreased = [],
       unchanged = [],
       top_adds_by_value = [ex_first_A], top_cuts_by_value = [], top_adds_by_growth_rate = [],
       top_cuts_by_growth_rate = [], top_adds_by_portfolio_impact = [],
       top_cuts_by_portfolio_impact = [], new_starters = [ex_first_A], increased_starters = [],
       concentration_top5 = 1, concentration_top10 = 1, herfindahl_index = 1,
       position_count_prev = 0, position_count_now = 1,
       gross_adds_value = 100, gross_cuts_value = 0 \<rparr>"

text \<open>
  A first filing of a large portfolio: the position \<open>A\<close> of \$25M is a starter by its weight of
  about 0.12\%.
\<close>

definition ex_big_now :: "HoldingRecord list" where
  "ex_big_now = [holding ''B'' ''BCORP'' None 20000000000, holding ''A'' ''ACORP'' None 25000000]"

definition ex_big_B :: PositionDiff where
  "ex_big_B =
     \<lparr> cusip = ''B'', issuer_name = ''BCORP'', title_of_class = ''COM'',
       prev_value_usd = None, now_value_usd = Some 20000000000, delta_value_usd = 20000000000,
       prev_shares = None, now_shares = Some 2000000000, delta_shares = 2000000000,
       prev_weight = None, now_weight = Some (800 / 801), growth_rate = None,
       portfolio_impact = None, change_type = NEW, is_starter = False,
       put_call = None \<rparr>"

definition ex_big_A :: PositionDiff where
  "ex_big_A =
     \<lparr> cusip = ''A'', issuer_name = ''ACORP'', title_of_class = ''COM'',
       prev_value_usd = None, now_value_usd = Some 25000000, delta_value_usd = 25000000,
       prev_shares = None, now_shares = Some 2500000, delta_shares = 2500000,
       prev_weight = None, now_weight = Some (1 / 801), growth_rate = None,
       portfolio_impact = None, change_type = NEW, is_starter = True,
       put_call = None \<rparr>"

definition ex_big_diff :: QuarterDiff where
  "ex_big_diff =
     \<lparr> fund_id = 1, fund_name = ''FUND'', period_from = ''2024-03-31'',
       period_to = ''2024-06-30'', total_portfolio_prev = 0, total_portfolio_now = 20025000000,
       new_positions = [ex_big_B, ex_big_A], sold_out = [], increased = [], decreased = [],
       unchanged = [],
       top_adds_by_value = [ex_big_B, ex_big_A], top_cuts_by_value = [],
       top_adds_by_growth_rate = [], top_cuts_by_growth_rate = [],
       top_adds_by_portfolio_impact = [], top_cuts_by_portfolio_impact = [],
       new_starters = [ex_big_A], increased_starters = [],
       concentration_top5 = 1, concentration_top10 = 1, herfindahl_index = 640001 / 641601,
       position_count_prev = 0, position_count_now = 2,
       gross_adds_value = 20025000000, gross_cuts_value = 0 \<rparr>"

text \<open>The scenario of the specification: prior \<open>A\<close> \$100 and \<open>B\<close> \$50, now \<open>A\<close> \$150 and \<open>C\<close> \$30.\<close>

definition ex_prior :: "HoldingRecord list" where
  "ex_prior = [holding ''A'' ''ACORP'' None 100, holding ''B'' ''BCORP'' None 50]"

definition ex_now :: "HoldingRecord list" where
  "ex_now = [holding ''A'' ''ACORP'' None 150, holding ''C'' ''CCORP'' None 30]"

definition ex_scen_A :: PositionDiff where
  "ex_scen_A =
     \<lparr> cusip = ''A'', issuer_name = ''ACORP'', title_of_class = ''COM'',
       prev_value_usd = Some 100, now_value_usd = Some 150, delta_value_usd = 50,
       prev_shares = Some 10, now_shares = Some 15, delta_shares = 5,
       prev_weight = Some (2 / 3), now_weight = Some (5 / 6), growth_rate = Some (1 / 2),
       portfolio_impact = Some (1 / 3), change_type = INCREASE, is_starter = True,
       put_call = None \<rparr>"

definition ex_scen_B :: PositionDiff where
  "ex_scen_B =
     \<lparr> cusip = ''B'', issuer_name = ''BCORP'', title_of_class = ''COM'',
       prev_value_usd = Some 50, now_value_usd = None, delta_value_usd = - 50,
       prev_shares = Some 5, now_shares = None, delta_shares = - 5,
       prev_weight = Some (1 / 3), now_weight = None, growth_rate = None,
       portfolio_impact = Some (- (1 / 3)), change_type = EXIT, is_starter = False,
       put_call = None \<rparr>"

definition ex_scen_C :: PositionDiff where
  "ex_scen_C =
     \<lparr> cusip = ''C'', issuer_name = ''CCORP'', title_of_class = ''COM'',
       prev_value_usd = None, now_value_usd = Some 30, delta_value_usd = 30,
       prev_shares = None, now_shares = Some 3, delta_shares = 3,
       prev_weight = None, now_weight = Some (1 / 6), growth_rate = None,
       portfolio_impact = Some (1 / 5), change_type = NEW, is_starter = True,
       put_call = None \<rparr>"

definition ex_scenario_diff :: QuarterDiff where
  "ex_scenario_diff =
     \<lparr> fund_id = 1, fund_name = ''FUND'', period_from = ''2024-03-31'',
       period_to = ''2024-06-30'', total_portfolio_prev = 150, total_portfolio_now = 180,
       new_positions = [ex_scen_C], sold_out = [ex_scen_B], increased = [ex_scen_A],
       decreased = [], unchanged = [],
       top_adds_by_value = [ex_scen_A, ex_scen_C], top_cuts_by_value = [ex_scen_B],
       top_adds_by_growth_rate = [ex_scen_A], top_cuts_by_growth_rate = [],
       top_adds_by_portfolio_impact = [ex_scen_A, ex_scen_C],
       top_cuts_by_portfolio_impact = [ex_scen_B],
       new_starters = [ex_scen_C], increased_starters = [ex_scen_A],
       concentration_top5 = 1, concentration_top10 = 1, herfindahl_index = 13 / 18,
       position_count_prev = 2, position_count_now = 2,
       gross_adds_value = 80, gross_cuts_value = 50 \<rparr>"

text \<open>A first filing with six positions.\<close>

definition ex_six :: "HoldingRecord list" where
  "ex_six = [holding ''A'' ''ACORP'' None 60, holding ''B'' ''BCORP'' None 50,
             holding ''C'' ''CCORP'' None 40, holding ''D'' ''DCORP'' None 30,
             holding ''E'' ''ECORP'' None 20, holding ''F'' ''FCORP'' None 10]"

definition ex_six_keys :: "string list" where
  "ex_six_keys = [''A|COM|NONE'', ''B|COM|NONE'', ''C|COM|NONE'', ''D|COM|NONE'',
                  ''E|COM|NONE'', ''F|COM|NONE'']"

text \<open>Three positions whose weights are not doubles: 18/28, 9/28 and 1/28.\<close>

definition ex_round :: "HoldingRecord list" where
  "ex_round = [holding ''A'' ''ACORP'' None 18, holding ''B'' ''BCORP'' None 9,
               holding ''C'' ''CCORP'' None 1]"

text \<open>A classifier that knows no cluster: every issuer is \<^verbatim>\<open>"Other"\<close>.\<close>

definition no_clusters :: "string \<Rightarrow> string" where
  "no_clusters name = ''Other''"

text \<open>
  One security held as shares, as a call and as a put, all three larger in the second
  quarter, and the diff that the engine returns.
\<close>

definition ex_opt_prev :: "HoldingRecord list" where
  "ex_opt_prev = [holding ''X'' ''XCORP'' None 100, holding ''X'' ''XCORP'' (Some ''Call'') 50,
                  holding ''X'' ''XCORP'' (Some ''Put'') 20]"

definition ex_opt_now :: "HoldingRecord list" where
  "ex_opt_now = [holding ''X'' ''XCORP'' None 150, holding ''X'' ''XCORP'' (Some ''Call'') 80,
                 holding ''X'' ''XCORP'' (Some ''Put'') 30]"

definition ex_opt_S :: PositionDiff where
  "ex_opt_S =
     \<lparr> cusip = ''X'', issuer_name = ''XCORP'', title_of_class = ''COM'',
       prev_value_usd = Some 100, now_value_usd = Some 150, delta_value_usd = 50,
       prev_shares = Some 10, now_shares = Some 15, delta_shares = 5,
       prev_weight = Some (10 / 17), now_weight = Some (15 / 26), growth_rate = Some (1 / 2),
       portfolio_impact = Some (5 / 17), change_type = INCREASE, is_starter = True,
       put_call = None \<rparr>"

definition ex_opt_C :: PositionDiff where
  "ex_opt_C =
     \<lparr> cusip = ''X'', issuer_name = ''XCORP'', title_of_class = ''COM'',
       prev_value_usd = Some 50, now_value_usd = Some 80, delta_value_usd = 30,
       prev_shares = Some 5, now_shares = Some 8, delta_shares = 3,
       prev_weight = Some (5 / 17), now_weight = Some (4 / 13), growth_rate = Some (3 / 5),
       portfolio_impact = Some (3 / 17), change_type = INCREASE, is_starter = True,
       put_call = Some ''Call'' \<rparr>"

definition ex_opt_P :: PositionDiff where
  "ex_opt_P =
     \<lparr> cusip = ''X'', issuer_name = ''XCORP'', title_of_class = ''COM'',
       prev_value_usd = Some 20, now_value_usd = Some 30, delta_value_usd = 10,
       prev_shares = Some 2, now_shares = Some 3, delta_shares = 1,
       prev_weight = Some (2 / 17), now_weight = Some (3 / 26), growth_rate = Some (1 / 2),
       portfolio_impact = Some (1 / 17), change_type = INCREASE, is_starter = True,
       put_call = Some ''Put'' \<rparr>"

definition ex_opt_diff :: QuarterDiff where
  "ex_opt_diff =
     \<lparr> fund_id = 1, fund_name = ''FUND'', period_from = ''2024-03-31'',
       period_to = ''2024-06-30'', total_portfolio_prev = 170, total_portfolio_now = 260,
       new_positions = [], sold_out = [], increased = [ex_opt_S, ex_opt_C, ex_opt_P],
       decreased = [], unchanged = [],
       top_adds_by_value = [ex_opt_S, ex_opt_C, ex_opt_P], top_cuts_by_value = [],
       top_adds_by_growth_rate = [ex_opt_C, ex_opt_S, ex_opt_P], top_cuts_by_growth_rate = [],
       top_adds_by_portfolio_impact = [ex_opt_S, ex_opt_C, ex_opt_P],
       top_cuts_by_portfolio_impact = [],
       new_starters = [], increased_starters = [ex_opt_S, ex_opt_C, ex_opt_P],
       concentration_top5 = 1, concentration_top10 = 1, herfindahl_index = 149 / 338,
       position_count_prev = 3, position_count_now = 3,
       gross_adds_value = 90, gross_cuts_value = 0 \<rparr>"

text \<open>
  Five filings of a fund with one position, most recent first: the position grows for three
  quarters and is trimmed in the last.
\<close>

definition ex_run_filings :: "(string \<times> HoldingRecord list) list" where
  "ex_run_filings =
     [(''2025-03-31'', [holding ''X'' ''XCORP'' None 300]),
      (''2024-12-31'', [holding ''X'' ''XCORP'' None 400]),
      (''2024-09-30'', [holding ''X'' ''XCORP'' None 300]),
      (''2024-06-30'', [holding ''X'' ''XCORP'' None 200]),
      (''2024-03-31'', [holding ''X'' ''XCORP'' None 100])]"

section \<open>Properties of the diff engine\<close>

subsection \<open>The error monad and the guarded divisions\<close>

lemma bind_err_Inr [simp]: "bind_err (Inr x) f = f x"
  by (simp add: bind_err_def)

lemma bind_err_Inl [simp]: "bind_err (Inl e) f = Inl e"
  by (simp add: bind_err_def)

lemma bind_err_eq_Inr: "bind_err m f = Inr y \<longleftrightarrow> (\<exists>x. m = Inr x \<and> f x = Inr y)"
  by (cases m) simp_all

lemma truediv_nonzero: "b \<noteq> 0 \<Longrightarrow> truediv a b = Inr (rat_of_int a / rat_of_int b)"
  by (simp add: truediv_def)

lemma weight_of_eq:
  "weight_of v t =
     Inr (case v of None \<Rightarrow> None
          | Some x \<Rightarrow> if x \<noteq> 0 \<and> t \<noteq> 0 then Some (rat_of_int x / rat_of_int t) else None)"
  by (simp add: weight_of_def truediv_nonzero split: option.splits)

lemma growth_of_eq:
  "growth_of pv nv =
     Inr (case pv of None \<Rightarrow> None
          | Some p \<Rightarrow> (case nv of None \<Rightarrow> None
                       | Some n \<Rightarrow> if p > 0 then Some (rat_of_int (n - p) / rat_of_int p) else None))"
  by (auto simp: growth_of_def truediv_nonzero split: option.splits)

lemma impact_of_eq:
  "impact_of dv tp = Inr (if tp > 0 then Some (rat_of_int dv / rat_of_int tp) else None)"
  by (simp add: impact_of_def truediv_nonzero)

lemma position_diff_absent:
  "pk k = None \<Longrightarrow> nk k = None \<Longrightarrow> position_diff pk nk tp tn cfg k = Inl AttributeError"
  by (simp add: position_diff_def Let_def weight_of_eq growth_of_eq impact_of_eq)

lemma position_diff_present:
  assumes "pk k \<noteq> None \<or> nk k \<noteq> None"
  shows "\<exists>d. position_diff pk nk tp tn cfg k = Inr d"
  using assms
  by (auto simp: position_diff_def Let_def weight_of_eq growth_of_eq impact_of_eq
           split: option.splits)

lemma position_diff_fields:
  assumes "position_diff pk nk tp tn cfg k = Inr d"
  shows "prev_value_usd d = map_option h_value_usd (pk k)"
    and "now_value_usd d = map_option h_value_usd (nk k)"
    and "delta_value_usd d = or_zero (now_value_usd d) - or_zero (prev_value_usd d)"
    and "prev_shares d = map_option h_shares_or_principal (pk k)"
    and "now_shares d = map_option h_shares_or_principal (nk k)"
    and "delta_shares d = or_zero (now_shares d) - or_zero (prev_shares d)"
    and "weight_of (prev_value_usd d) tp = Inr (prev_weight d)"
    and "weight_of (now_value_usd d) tn = Inr (now_weight d)"
    and "growth_of (prev_value_usd d) (now_value_usd d) = Inr (growth_rate d)"
    and "impact_of (delta_value_usd d) tp = Inr (portfolio_impact d)"
    and "change_type d = classify (pk k) (nk k) (delta_value_usd d)"
    and "is_starter d = is_starter_fn (now_weight d) (now_value_usd d) cfg"
    and "pk k \<noteq> None \<or> nk k \<noteq> None"
  using assms
  by (auto simp: position_diff_def Let_def weight_of_eq growth_of_eq impact_of_eq
           split: option.splits)

lemma position_diff_key:
  assumes "position_diff pk nk tp tn cfg k = Inr d"
    and "\<And>h. pk k = Some h \<Longrightarrow> holding_key h = k"
    and "\<And>h. nk k = Some h \<Longrightarrow> holding_key h = k"
  shows "position_key d = k"
  using assms
  by (auto simp: position_diff_def Let_def weight_of_eq growth_of_eq impact_of_eq
                 position_key_def holding_key_def
           split: option.splits)

subsection \<open>The index of a side by matching key\<close>

lemma foldl_by_key_Some:
  "foldl (\<lambda>m h. m(holding_key h \<mapsto> h)) m hs k = Some h
     \<Longrightarrow> m k = Some h \<or> (h \<in> set hs \<and> holding_key h = k)"
proof (induction hs arbitrary: m)
  case Nil
  then show ?case by simp
next
  case (Cons a hs)
  from Cons.prems have "foldl (\<lambda>m h. m(holding_key h \<mapsto> h)) (m(holding_key a \<mapsto> a)) hs k = Some h"
    by (simp only: foldl_Cons)
  from Cons.IH [OF this]
  have "(m(holding_key a \<mapsto> a)) k = Some h \<or> (h \<in> set hs \<and> holding_key h = k)" .
  then show ?case by (auto split: if_splits)
qed

lemma by_key_Some: "by_key hs k = Some h \<Longrightarrow> h \<in> set hs \<and> holding_key h = k"
  using foldl_by_key_Some [of Map.empty hs k h] by (simp add: by_key_def)

lemma dom_foldl_by_key:
  "dom (foldl (\<lambda>m h. m(holding_key h \<mapsto> h)) m hs) = dom m \<union> holding_key ` set hs"
  by (induction hs arbitrary: m) auto

lemma dom_by_key: "dom (by_key hs) = holding_key ` set hs"
  by (simp add: by_key_def dom_foldl_by_key)

subsection \<open>The loop over the keys\<close>

lemma diffs_loop_Inr:
  "diffs_loop pk nk tp tn cfg ks = Inr ds
     \<longleftrightarrow> list_all2 (\<lambda>k d. position_diff pk nk tp tn cfg k = Inr d) ks ds"
proof (induction ks arbitrary: ds)
  case Nil
  show ?case by auto
next
  case (Cons k ks)
  show ?case
    by (cases ds) (auto simp: bind_err_eq_Inr Cons.IH)
qed

lemma diffs_loop_total:
  "(\<forall>k \<in> set ks. pk k \<noteq> None \<or> nk k \<noteq> None) \<Longrightarrow> \<exists>ds. diffs_loop pk nk tp tn cfg ks = Inr ds"
proof (induction ks)
  case Nil
  show ?case by simp
next
  case (Cons k ks)
  then obtain ds where ds: "diffs_loop pk nk tp tn cfg ks = Inr ds" by auto
  from Cons.prems obtain d where "position_diff pk nk tp tn cfg k = Inr d"
    using position_diff_present [of pk k nk tp tn cfg] by auto
  with ds show ?case by simp
qed

lemma weights_loop_eq:
  "weights_loop tn hs =
     Inr (if tn > 0 then map (\<lambda>h. rat_of_int (h_value_usd h) / rat_of_int tn) hs else [])"
  by (induction hs) (simp_all add: truediv_nonzero)

subsection \<open>The returned record\<close>

lemma compute_quarter_diff_Inr:
  assumes "compute_quarter_diff ks fid fname pf pt hp hn cfg = Inr qd"
  shows "\<exists>ds. diffs_loop (by_key hp) (by_key hn) (sum_list (map h_value_usd hp))
                (sum_list (map h_value_usd hn)) cfg ks = Inr ds
              \<and> new_positions qd = filter (\<lambda>d. change_type d = NEW) ds
              \<and> sold_out qd = filter (\<lambda>d. change_type d = EXIT) ds
              \<and> increased qd = filter (\<lambda>d. change_type d = INCREASE) ds
              \<and> decreased qd = filter (\<lambda>d. change_type d = DECREASE) ds
              \<and> unchanged qd = filter (\<lambda>d. change_type d = UNCHANGED) ds"
  using assms
  by (auto simp: compute_quarter_diff_def Let_def bind_err_eq_Inr weights_loop_eq)

lemma compute_quarter_diff_scalars:
  assumes "compute_quarter_diff ks fid fname pf pt hp hn cfg = Inr qd"
  shows "total_portfolio_prev qd = sum_list (map h_value_usd hp)"
    and "total_portfolio_now qd = sum_list (map h_value_usd hn)"
    and "position_count_prev qd = length hp"
    and "position_count_now qd = length hn"
    and "weights_loop (total_portfolio_now qd) hn = Inr ws
           \<Longrightarrow> concentration_top5 qd = concentration 5 (sorted_desc (\<lambda>w. w) ws)
             \<and> concentration_top10 qd = concentration 10 (sorted_desc (\<lambda>w. w) ws)
             \<and> herfindahl_index qd =
                 (if ws \<noteq> [] then sum_list (map (\<lambda>w. w * w) (sorted_desc (\<lambda>w. w) ws)) else 0)"
  using assms
  by (auto simp: compute_quarter_diff_def Let_def bind_err_eq_Inr weights_loop_eq sorted_desc_def)

lemma compute_quarter_diff_total:
  assumes "diffs_loop (by_key hp) (by_key hn) (sum_list (map h_value_usd hp))
             (sum_list (map h_value_usd hn)) cfg ks = Inr ds"
  shows "\<exists>qd. compute_quarter_diff ks fid fname pf pt hp hn cfg = Inr qd"
  using assms
  by (simp add: compute_quarter_diff_def Let_def weights_loop_eq)

lemma list_all2_in_right:
  "list_all2 P xs ys \<Longrightarrow> y \<in> set ys \<longrightarrow> (\<exists>x \<in> set xs. P x y)"
  by (induction rule: list_all2_induct) auto

lemma diffs_loop_in_set:
  assumes "diffs_loop pk nk tp tn cfg ks = Inr ds" and "d \<in> set ds"
  shows "\<exists>k \<in> set ks. position_diff pk nk tp tn cfg k = Inr d"
  using assms list_all2_in_right [of "\<lambda>k d. position_diff pk nk tp tn cfg k = Inr d" ks ds d]
  unfolding diffs_loop_Inr by blast

lemma diffs_loop_keys:
  assumes "diffs_loop (by_key hp) (by_key hn) tp tn cfg ks = Inr ds"
  shows "map position_key ds = ks"
proof -
  have "list_all2 (\<lambda>k d. position_key d = k) ks ds"
    using assms unfolding diffs_loop_Inr
    by (rule list_all2_mono) (auto intro: position_diff_key dest: by_key_Some)
  then show ?thesis
    by (induction rule: list_all2_induct) simp_all
qed

lemma set_all_positions:
  "set (all_positions qd) =
     set (new_positions qd) \<union> set (sold_out qd) \<union> set (increased qd) \<union> set (decreased qd)
       \<union> set (unchanged qd)"
  by (auto simp: all_positions_def)

lemma categories_cover:
  "set (filter (\<lambda>d. change_type d = NEW) ds) \<union> set (filter (\<lambda>d. change_type d = EXIT) ds)
     \<union> set (filter (\<lambda>d. change_type d = INCREASE) ds)
     \<union> set (filter (\<lambda>d. change_type d = DECREASE) ds)
     \<union> set (filter (\<lambda>d. change_type d = UNCHANGED) ds) = set ds"
proof -
  have "\<And>d. change_type d = NEW \<or> change_type d = EXIT \<or> change_type d = INCREASE
            \<or> change_type d = DECREASE \<or> change_type d = UNCHANGED"
    by (metis ChangeType.exhaust)
  then show ?thesis by auto
qed

lemma compute_quarter_diff_positions:
  assumes "compute_quarter_diff ks fid fname pf pt hp hn cfg = Inr qd"
  shows "\<exists>ds. diffs_loop (by_key hp) (by_key hn) (sum_list (map h_value_usd hp))
                (sum_list (map h_value_usd hn)) cfg ks = Inr ds
              \<and> set (all_positions qd) = set ds"
proof -
  from compute_quarter_diff_Inr [OF assms] obtain ds where
    ds: "diffs_loop (by_key hp) (by_key hn) (sum_list (map h_value_usd hp))
           (sum_list (map h_value_usd hn)) cfg ks = Inr ds"
    and cats: "new_positions qd = filter (\<lambda>d. change_type d = NEW) ds"
      "sold_out qd = filter (\<lambda>d. change_type d = EXIT) ds"
      "increased qd = filter (\<lambda>d. change_type d = INCREASE) ds"
      "decreased qd = filter (\<lambda>d. change_type d = DECREASE) ds"
      "unchanged qd = filter (\<lambda>d. change_type d = UNCHANGED) ds"
    by blast
  have "set (all_positions qd) = set ds"
    unfolding set_all_positions cats by (rule categories_cover)
  with ds show ?thesis by blast
qed

lemma key_order_present:
  assumes "key_order ks hp hn" and "k \<in> set ks"
  shows "by_key hp k \<noteq> None \<or> by_key hn k \<noteq> None"
  using assms by (auto simp: key_order_def)

lemma compute_quarter_diff_returns:
  assumes "key_order ks hp hn"
  shows "\<exists>qd. compute_quarter_diff ks fid fname pf pt hp hn cfg = Inr qd"
proof -
  have "\<forall>k \<in> set ks. by_key hp k \<noteq> None \<or> by_key hn k \<noteq> None"
    using key_order_present [OF assms] by blast
  from diffs_loop_total [OF this] obtain ds where
    "diffs_loop (by_key hp) (by_key hn) (sum_list (map h_value_usd hp))
       (sum_list (map h_value_usd hn)) cfg ks = Inr ds" by blast
  then show ?thesis by (rule compute_quarter_diff_total)
qed

subsection \<open>Diffing a snapshot against itself\<close>

text \<open>
  Claim C8. For every list of holdings \<open>H\<close> and every configuration \<open>t\<close>, the diff of \<open>H\<close>
  against itself returns a \<^verbatim>\<open>QuarterDiff\<close> whose \<^verbatim>\<open>position_count_now\<close> equals its
  \<^verbatim>\<open>position_count_prev\<close>, and every position of it has change type \<^verbatim>\<open>UNCHANGED\<close> and
  \<^verbatim>\<open>delta_value_usd = 0\<close>; the unchanged positions are one for each key, in the order of
  the iteration.
\<close>

theorem diff_self_unchanged:
  assumes "key_order ks H H"
  shows "\<exists>qd. compute_quarter_diff ks fid fname pf pt H H t = Inr qd
           \<and> position_count_now qd = position_count_prev qd
           \<and> map position_key (unchanged qd) = ks
           \<and> (\<forall>d \<in> set (all_positions qd). change_type d = UNCHANGED \<and> delta_value_usd d = 0)"
proof -
  from compute_quarter_diff_returns [OF assms] obtain qd where
    qd: "compute_quarter_diff ks fid fname pf pt H H t = Inr qd" by blast
  from compute_quarter_diff_Inr [OF qd] obtain ds where
    ds: "diffs_loop (by_key H) (by_key H) (sum_list (map h_value_usd H))
           (sum_list (map h_value_usd H)) t ks = Inr ds"
    and unch: "unchanged qd = filter (\<lambda>d. change_type d = UNCHANGED) ds"
    by blast
  from compute_quarter_diff_positions [OF qd] ds have pos: "set (all_positions qd) = set ds"
    by simp
  have each: "change_type d = UNCHANGED \<and> delta_value_usd d = 0" if "d \<in> set ds" for d
  proof -
    from diffs_loop_in_set [OF ds that] obtain k where
      k: "position_diff (by_key H) (by_key H) (sum_list (map h_value_usd H))
            (sum_list (map h_value_usd H)) t k = Inr d" by blast
    note f = position_diff_fields [OF k]
    from f(13) obtain h where h: "by_key H k = Some h" by auto
    have "delta_value_usd d = 0" using f(1,2,3) by simp
    moreover have "change_type d = UNCHANGED"
      using f(11) h \<open>delta_value_usd d = 0\<close> by (simp add: classify_def)
    ultimately show ?thesis by simp
  qed
  then have "filter (\<lambda>d. change_type d = UNCHANGED) ds = ds" by simp
  with unch diffs_loop_keys [OF ds] have "map position_key (unchanged qd) = ks" by simp
  moreover have "position_count_now qd = position_count_prev qd"
    using compute_quarter_diff_scalars(3,4) [OF qd] by simp
  ultimately show ?thesis using qd pos each by auto
qed

theorem diff_self_unchanged_witness:
  "key_order [''A|COM|NONE'', ''B|COM|Call''] ex_same ex_same
   \<and> (\<exists>qd. compute_quarter_diff [''A|COM|NONE'', ''B|COM|Call''] 1 ''FUND'' ''2024-03-31''
               ''2024-06-30'' ex_same ex_same default_config = Inr qd
           \<and> position_count_now qd = position_count_prev qd
           \<and> map position_key (unchanged qd) = [''A|COM|NONE'', ''B|COM|Call'']
           \<and> (\<forall>d \<in> set (all_positions qd). change_type d = UNCHANGED \<and> delta_value_usd d = 0))"
proof -
  have k: "key_order [''A|COM|NONE'', ''B|COM|Call''] ex_same ex_same"
    by (auto simp: key_order_def dom_by_key ex_same_def holding_key_def holding_def)
  from diff_self_unchanged [OF k] k show ?thesis by blast
qed

subsection \<open>The engine on the concrete inputs\<close>

lemma ex_zero_computed:
  "compute_quarter_diff [''B|COM|NONE'', ''A|COM|NONE''] 1 ''FUND'' ''2024-03-31'' ''2024-06-30''
     ex_zero ex_zero default_config = Inr ex_zero_diff"
  by code_simp

lemma ex_exit_computed:
  "compute_quarter_diff [''A|COM|NONE''] 1 ''FUND'' ''2024-03-31'' ''2024-06-30''
     ex_exit_prev [] default_config = Inr ex_exit_diff"
  by code_simp

lemma ex_first_computed:
  "compute_quarter_diff [''A|COM|NONE''] 1 ''FUND'' ''2024-03-31'' ''2024-06-30''
     [] ex_exit_prev default_config = Inr ex_first_diff"
  by code_simp

lemma ex_big_computed:
  "compute_quarter_diff [''B|COM|NONE'', ''A|COM|NONE''] 1 ''FUND'' ''2024-03-31'' ''2024-06-30''
     [] ex_big_now default_config = Inr ex_big_diff"
  by code_simp

lemma ex_scenario_key_order:
  "key_order [''A|COM|NONE'', ''B|COM|NONE'', ''C|COM|NONE''] ex_prior ex_now"
  by (auto simp: key_order_def dom_by_key ex_prior_def ex_now_def holding_key_def holding_def)

lemma ex_scenario_computed:
  "compute_quarter_diff [''A|COM|NONE'', ''B|COM|NONE'', ''C|COM|NONE''] 1 ''FUND''
     ''2024-03-31'' ''2024-06-30'' ex_prior ex_now default_config = Inr ex_scenario_diff"
  by code_simp

lemma key_order_exists: "key_order (first_seen_keys hp hn) hp hn"
  by (auto simp: key_order_def dom_by_key first_seen_keys_def)

subsection \<open>Classification and partition\<close>

text \<open>
  The key string determines the three components of the matching key, as long as neither
  the cusip nor the option flag contains the separator.
\<close>

lemma split_at_first_bar:
  assumes "a @ CHR ''|'' # b = a' @ CHR ''|'' # b'"
    and "CHR ''|'' \<notin> set a" and "CHR ''|'' \<notin> set a'"
  shows "a = a' \<and> b = b'"
  using assms
proof (induction a arbitrary: a')
  case Nil
  then show ?case by (cases a') auto
next
  case (Cons x a)
  then show ?case by (cases a') auto
qed

lemma split_at_last_bar:
  assumes "a @ CHR ''|'' # b = a' @ CHR ''|'' # b'"
    and "CHR ''|'' \<notin> set b" and "CHR ''|'' \<notin> set b'"
  shows "a = a' \<and> b = b'"
proof -
  from assms(1) have "rev b @ CHR ''|'' # rev a = rev b' @ CHR ''|'' # rev a'"
    by (metis rev_append rev.simps(2) append_assoc append_Cons append_Nil rev_rev_ident)
  from split_at_first_bar [OF this] assms(2,3) show ?thesis by simp
qed

lemma holding_key_injective:
  assumes "CHR ''|'' \<notin> set (h_cusip h)" and "CHR ''|'' \<notin> set (h_cusip h')"
    and "CHR ''|'' \<notin> set (option_flag (h_put_call h))"
    and "CHR ''|'' \<notin> set (option_flag (h_put_call h'))"
  shows "holding_key h = holding_key h' \<longleftrightarrow>
           h_cusip h = h_cusip h' \<and> h_title_of_class h = h_title_of_class h'
           \<and> option_flag (h_put_call h) = option_flag (h_put_call h')"
proof
  assume eq: "holding_key h = holding_key h'"
  have k: "holding_key x = h_cusip x @ CHR ''|'' # (h_title_of_class x @ CHR ''|'' # option_flag (h_put_call x))"
    for x by (simp add: holding_key_def option_flag_def)
  from eq have "h_cusip h @ CHR ''|'' # (h_title_of_class h @ CHR ''|'' # option_flag (h_put_call h))
      = h_cusip h' @ CHR ''|'' # (h_title_of_class h' @ CHR ''|'' # option_flag (h_put_call h'))"
    by (simp only: k)
  from split_at_first_bar [OF this assms(1,2)]
  have c: "h_cusip h = h_cusip h'"
    and r: "h_title_of_class h @ CHR ''|'' # option_flag (h_put_call h)
            = h_title_of_class h' @ CHR ''|'' # option_flag (h_put_call h')" by simp_all
  from split_at_last_bar [OF r assms(3,4)] c
  show "h_cusip h = h_cusip h' \<and> h_title_of_class h = h_title_of_class h'
           \<and> option_flag (h_put_call h) = option_flag (h_put_call h')" by simp
next
  assume "h_cusip h = h_cusip h' \<and> h_title_of_class h = h_title_of_class h'
           \<and> option_flag (h_put_call h) = option_flag (h_put_call h')"
  then show "holding_key h = holding_key h'"
    by (simp add: holding_key_def option_flag_def)
qed

lemma mset_categories:
  "mset (filter (\<lambda>d. change_type d = NEW) ds @ filter (\<lambda>d. change_type d = EXIT) ds
         @ filter (\<lambda>d. change_type d = INCREASE) ds @ filter (\<lambda>d. change_type d = DECREASE) ds
         @ filter (\<lambda>d. change_type d = UNCHANGED) ds) = mset ds"
proof (induction ds)
  case Nil
  show ?case by simp
next
  case (Cons d ds)
  then show ?case by (cases "change_type d") simp_all
qed

text \<open>
  Claim C5. For every pair of snapshots, each position is classified by the chain: \<^verbatim>\<open>NEW\<close> if its
  key is absent before and present now; \<^verbatim>\<open>EXIT\<close> if present before and absent now; otherwise
  \<^verbatim>\<open>INCREASE\<close> if \<^verbatim>\<open>delta_value_usd > 0\<close>, \<^verbatim>\<open>DECREASE\<close> if \<^verbatim>\<open>delta_value_usd < 0\<close>, else
  \<^verbatim>\<open>UNCHANGED\<close>. The five category lists hold only positions of their own change type, and
  together they hold exactly one position for each matching key of the union of the two
  sides: the multiset of the keys of their positions is the set of those keys. The
  matching key is the string that \<^verbatim>\<open>_holding_key\<close> computes.
\<close>

theorem classification_partition:
  assumes "key_order ks hp hn"
    and "compute_quarter_diff ks fid fname pf pt hp hn cfg = Inr qd"
  shows "mset (map position_key
                (new_positions qd @ sold_out qd @ increased qd @ decreased qd @ unchanged qd))
           = mset_set (dom (by_key hp) \<union> dom (by_key hn))
         \<and> (\<forall>d \<in> set (new_positions qd). change_type d = NEW)
         \<and> (\<forall>d \<in> set (sold_out qd). change_type d = EXIT)
         \<and> (\<forall>d \<in> set (increased qd). change_type d = INCREASE)
         \<and> (\<forall>d \<in> set (decreased qd). change_type d = DECREASE)
         \<and> (\<forall>d \<in> set (unchanged qd). change_type d = UNCHANGED)
         \<and> (\<forall>d \<in> set (new_positions qd @ sold_out qd @ increased qd @ decreased qd
                          @ unchanged qd).
               change_type d =
                 (if position_key d \<notin> dom (by_key hp) \<and> position_key d \<in> dom (by_key hn) then NEW
                  else if position_key d \<in> dom (by_key hp) \<and> position_key d \<notin> dom (by_key hn)
                  then EXIT
                  else if delta_value_usd d > 0 then INCREASE
                  else if delta_value_usd d < 0 then DECREASE
                  else UNCHANGED))"
proof -
  from compute_quarter_diff_Inr [OF assms(2)] obtain ds where
    ds: "diffs_loop (by_key hp) (by_key hn) (sum_list (map h_value_usd hp))
           (sum_list (map h_value_usd hn)) cfg ks = Inr ds"
    and cats: "new_positions qd = filter (\<lambda>d. change_type d = NEW) ds"
      "sold_out qd = filter (\<lambda>d. change_type d = EXIT) ds"
      "increased qd = filter (\<lambda>d. change_type d = INCREASE) ds"
      "decreased qd = filter (\<lambda>d. change_type d = DECREASE) ds"
      "unchanged qd = filter (\<lambda>d. change_type d = UNCHANGED) ds"
    by blast
  have five: "mset (new_positions qd @ sold_out qd @ increased qd @ decreased qd @ unchanged qd)
                = mset ds"
    unfolding cats by (rule mset_categories)
  have "mset (map position_key
               (new_positions qd @ sold_out qd @ increased qd @ decreased qd @ unchanged qd))
          = image_mset position_key (mset ds)"
    using five by (metis mset_map)
  also have "\<dots> = mset ks"
    using diffs_loop_keys [OF ds] by (metis mset_map)
  also have "\<dots> = mset_set (dom (by_key hp) \<union> dom (by_key hn))"
    using assms(1) by (metis key_order_def mset_set_set)
  finally have part: "mset (map position_key
               (new_positions qd @ sold_out qd @ increased qd @ decreased qd @ unchanged qd))
          = mset_set (dom (by_key hp) \<union> dom (by_key hn))" .
  have rule: "change_type d =
                 (if position_key d \<notin> dom (by_key hp) \<and> position_key d \<in> dom (by_key hn) then NEW
                  else if position_key d \<in> dom (by_key hp) \<and> position_key d \<notin> dom (by_key hn)
                  then EXIT
                  else if delta_value_usd d > 0 then INCREASE
                  else if delta_value_usd d < 0 then DECREASE
                  else UNCHANGED)" if "d \<in> set ds" for d
  proof -
    from diffs_loop_in_set [OF ds that] obtain k where
      k: "position_diff (by_key hp) (by_key hn) (sum_list (map h_value_usd hp))
            (sum_list (map h_value_usd hn)) cfg k = Inr d" by blast
    have "position_key d = k"
      using k by (rule position_diff_key) (auto dest: by_key_Some)
    with position_diff_fields(11) [OF k] show ?thesis
      by (auto simp: classify_def dom_def)
  qed
  have "set (new_positions qd @ sold_out qd @ increased qd @ decreased qd @ unchanged qd) = set ds"
    using five by (metis mset_eq_setD)
  with rule part show ?thesis by (simp add: cats)
qed

theorem classification_partition_witness:
  "key_order [''A|COM|NONE'', ''B|COM|NONE'', ''C|COM|NONE''] ex_prior ex_now
   \<and> compute_quarter_diff [''A|COM|NONE'', ''B|COM|NONE'', ''C|COM|NONE''] 1 ''FUND''
         ''2024-03-31'' ''2024-06-30'' ex_prior ex_now default_config = Inr ex_scenario_diff
   \<and> mset (map position_key [ex_scen_C, ex_scen_B, ex_scen_A])
         = mset_set (dom (by_key ex_prior) \<union> dom (by_key ex_now))
   \<and> change_type ex_scen_C = NEW \<and> change_type ex_scen_B = EXIT
   \<and> change_type ex_scen_A = INCREASE"
  using classification_partition [OF ex_scenario_key_order ex_scenario_computed]
    ex_scenario_key_order ex_scenario_computed
  by (simp add: ex_scenario_diff_def)

subsection \<open>The engine never raises\<close>

text \<open>
  Claim C6. For every pair of snapshots (both empty, the current side empty, the prior side
  empty, or neither) the diff returns a \<^verbatim>\<open>QuarterDiff\<close> and raises nothing: no division has
  a zero divisor. A field whose denominator is zero is \<^verbatim>\<open>None\<close>: the prior weight and the
  portfolio impact when the prior total is 0, the current weight when the current total is
  0, the growth rate when the prior value is 0. With no current holdings the two
  concentrations and the Herfindahl index are 0. (The quotients are exact rationals here, so
  an infinity or a NaN has no counterpart; the values come from 64-bit database columns, so
  the quotient of two of them is within the range of a double.)
\<close>

theorem diff_never_raises:
  assumes "key_order ks hp hn"
  shows "\<exists>qd. compute_quarter_diff ks fid fname pf pt hp hn cfg = Inr qd
           \<and> (hn = [] \<longrightarrow> concentration_top5 qd = 0 \<and> concentration_top10 qd = 0
                          \<and> herfindahl_index qd = 0)
           \<and> (\<forall>d \<in> set (all_positions qd).
                 (total_portfolio_prev qd = 0 \<longrightarrow> prev_weight d = None \<and> portfolio_impact d = None)
               \<and> (total_portfolio_now qd = 0 \<longrightarrow> now_weight d = None)
               \<and> (prev_value_usd d = Some 0 \<longrightarrow> growth_rate d = None))"
proof -
  from compute_quarter_diff_returns [OF assms] obtain qd where
    qd: "compute_quarter_diff ks fid fname pf pt hp hn cfg = Inr qd" by blast
  note sc = compute_quarter_diff_scalars [OF qd]
  have conc: "concentration_top5 qd = 0 \<and> concentration_top10 qd = 0 \<and> herfindahl_index qd = 0"
    if "hn = []"
  proof -
    from that have "weights_loop (total_portfolio_now qd) hn = Inr []" by simp
    from sc(5) [OF this] show ?thesis by (simp add: sorted_desc_def concentration_def)
  qed
  from compute_quarter_diff_positions [OF qd] obtain ds where
    ds: "diffs_loop (by_key hp) (by_key hn) (sum_list (map h_value_usd hp))
           (sum_list (map h_value_usd hn)) cfg ks = Inr ds"
    and pos: "set (all_positions qd) = set ds" by blast
  have each: "(total_portfolio_prev qd = 0 \<longrightarrow> prev_weight d = None \<and> portfolio_impact d = None)
               \<and> (total_portfolio_now qd = 0 \<longrightarrow> now_weight d = None)
               \<and> (prev_value_usd d = Some 0 \<longrightarrow> growth_rate d = None)" if "d \<in> set ds" for d
  proof -
    from diffs_loop_in_set [OF ds that] obtain k where
      k: "position_diff (by_key hp) (by_key hn) (sum_list (map h_value_usd hp))
            (sum_list (map h_value_usd hn)) cfg k = Inr d" by blast
    note f = position_diff_fields [OF k]
    from f(7,8,9,10) show ?thesis
      by (auto simp: weight_of_eq growth_of_eq impact_of_eq sc(1,2) split: option.splits)
  qed
  from qd conc each pos show ?thesis by auto
qed

theorem diff_never_raises_witness:
  "key_order [''A|COM|NONE''] ex_exit_prev []
   \<and> compute_quarter_diff [''A|COM|NONE''] 1 ''FUND'' ''2024-03-31'' ''2024-06-30''
         ex_exit_prev [] default_config = Inr ex_exit_diff
   \<and> concentration_top5 ex_exit_diff = 0 \<and> concentration_top10 ex_exit_diff = 0
   \<and> herfindahl_index ex_exit_diff = 0
   \<and> total_portfolio_now ex_exit_diff = 0
   \<and> all_positions ex_exit_diff = [ex_exit_A]
   \<and> now_weight ex_exit_A = None"
proof -
  have k: "key_order [''A|COM|NONE''] ex_exit_prev []"
    by (auto simp: key_order_def dom_by_key ex_exit_prev_def holding_key_def holding_def)
  have a: "all_positions ex_exit_diff = [ex_exit_A]"
    by (simp add: all_positions_def ex_exit_diff_def)
  have t: "total_portfolio_now ex_exit_diff = 0"
    by (simp add: ex_exit_diff_def)
  from diff_never_raises [OF k, of 1 "''FUND''" "''2024-03-31''" "''2024-06-30''" default_config]
  show ?thesis using k a t by (simp add: ex_exit_computed)
qed

subsection \<open>The starter flag\<close>

text \<open>
  Claim C7. The starter flag is true exactly when the value is present and strictly below
  \<^verbatim>\<open>starter_value_threshold\<close>, or the weight is present and lies between
  \<^verbatim>\<open>starter_weight_min\<close> and \<^verbatim>\<open>starter_weight_max\<close>, both bounds included. A value equal to
  the threshold does not make a starter by value; a weight equal to either bound makes a
  starter (the bounds being in order). The engine computes the flag of every position from
  the current-side weight and value.
\<close>

theorem starter_flag:
  "(is_starter_fn w v cfg \<longleftrightarrow>
      (\<exists>x. v = Some x \<and> x < starter_value_threshold cfg)
      \<or> (\<exists>y. w = Some y \<and> starter_weight_min cfg \<le> y \<and> y \<le> starter_weight_max cfg))
   \<and> (is_starter_fn w (Some (starter_value_threshold cfg)) cfg \<longleftrightarrow>
        (\<exists>y. w = Some y \<and> starter_weight_min cfg \<le> y \<and> y \<le> starter_weight_max cfg))
   \<and> (starter_weight_min cfg \<le> starter_weight_max cfg \<longrightarrow>
        is_starter_fn (Some (starter_weight_min cfg)) v cfg
        \<and> is_starter_fn (Some (starter_weight_max cfg)) v cfg)
   \<and> (compute_quarter_diff ks fid fname pf pt hp hn cfg = Inr qd \<longrightarrow>
        (\<forall>d \<in> set (all_positions qd).
           is_starter d = is_starter_fn (now_weight d) (now_value_usd d) cfg))"
proof -
  have a: "is_starter_fn w' v' cfg \<longleftrightarrow>
      (\<exists>x. v' = Some x \<and> x < starter_value_threshold cfg)
      \<or> (\<exists>y. w' = Some y \<and> starter_weight_min cfg \<le> y \<and> y \<le> starter_weight_max cfg)"
    for w' v'
    by (cases v'; cases w') (auto simp: is_starter_fn_def)
  have d: "is_starter d = is_starter_fn (now_weight d) (now_value_usd d) cfg"
    if qd: "compute_quarter_diff ks fid fname pf pt hp hn cfg = Inr qd"
      and d: "d \<in> set (all_positions qd)" for d
  proof -
    from compute_quarter_diff_positions [OF qd] obtain ds where
      ds: "diffs_loop (by_key hp) (by_key hn) (sum_list (map h_value_usd hp))
             (sum_list (map h_value_usd hn)) cfg ks = Inr ds"
      and pos: "set (all_positions qd) = set ds" by blast
    from d pos have "d \<in> set ds" by simp
    from diffs_loop_in_set [OF ds this] obtain k where
      "position_diff (by_key hp) (by_key hn) (sum_list (map h_value_usd hp))
         (sum_list (map h_value_usd hn)) cfg k = Inr d" by blast
    then show ?thesis by (rule position_diff_fields(12))
  qed
  show ?thesis using a d by auto
qed

theorem starter_flag_witness:
  "starter_weight_min default_config \<le> starter_weight_max default_config
   \<and> is_starter_fn (Some (starter_weight_min default_config)) (Some 5000000) default_config
   \<and> is_starter_fn (Some (starter_weight_max default_config)) (Some 5000000) default_config
   \<and> \<not> is_starter_fn (Some (1 / 2)) (Some (starter_value_threshold default_config)) default_config
   \<and> compute_quarter_diff [''A|COM|NONE'', ''B|COM|NONE'', ''C|COM|NONE''] 1 ''FUND''
         ''2024-03-31'' ''2024-06-30'' ex_prior ex_now default_config = Inr ex_scenario_diff
   \<and> is_starter ex_scen_C = is_starter_fn (now_weight ex_scen_C) (now_value_usd ex_scen_C) default_config
   \<and> is_starter ex_scen_B = is_starter_fn (now_weight ex_scen_B) (now_value_usd ex_scen_B) default_config"
proof -
  have le: "starter_weight_min default_config \<le> starter_weight_max default_config"
    by (simp add: default_config_def)
  have a: "set (all_positions ex_scenario_diff) = {ex_scen_A, ex_scen_B, ex_scen_C}"
    by (auto simp: all_positions_def ex_scenario_diff_def)
  have n: "\<not> (\<exists>y. Some (1 / 2) = Some y \<and> starter_weight_min default_config \<le> y
               \<and> y \<le> starter_weight_max default_config)"
    by (simp add: default_config_def)
  from starter_flag [of "Some (1 / 2)" "Some 5000000" default_config
      "[''A|COM|NONE'', ''B|COM|NONE'', ''C|COM|NONE'']" 1 "''FUND''" "''2024-03-31''"
      "''2024-06-30''" ex_prior ex_now ex_scenario_diff]
  show ?thesis using le a n ex_scenario_computed by simp
qed

subsection \<open>Weights\<close>

lemma position_diff_sides:
  assumes "position_diff (by_key hp) (by_key hn) tp tn cfg k = Inr d"
  shows "(prev_value_usd d = None \<longleftrightarrow> position_key d \<notin> dom (by_key hp))
       \<and> (now_value_usd d = None \<longleftrightarrow> position_key d \<notin> dom (by_key hn))"
proof -
  have "position_key d = k"
    using assms by (rule position_diff_key) (auto dest: by_key_Some)
  with position_diff_fields(1,2) [OF assms] show ?thesis
    by (auto simp: dom_def)
qed

lemma position_diff_quotients:
  assumes "position_diff pk nk tp tn cfg k = Inr d"
  shows "prev_weight d =
           (case prev_value_usd d of None \<Rightarrow> None
            | Some x \<Rightarrow> if x \<noteq> 0 \<and> tp \<noteq> 0 then Some (rat_of_int x / rat_of_int tp) else None)"
    and "now_weight d =
           (case now_value_usd d of None \<Rightarrow> None
            | Some x \<Rightarrow> if x \<noteq> 0 \<and> tn \<noteq> 0 then Some (rat_of_int x / rat_of_int tn) else None)"
    and "growth_rate d =
           (case prev_value_usd d of None \<Rightarrow> None
            | Some p \<Rightarrow> (case now_value_usd d of None \<Rightarrow> None
                         | Some n \<Rightarrow> if p > 0 then Some (rat_of_int (n - p) / rat_of_int p)
                                     else None))"
    and "portfolio_impact d =
           (if tp > 0 then Some (rat_of_int (delta_value_usd d) / rat_of_int tp) else None)"
  using position_diff_fields(7,8,9,10) [OF assms]
  by (simp_all add: weight_of_eq growth_of_eq impact_of_eq)

lemma position_of_quarter_diff:
  assumes "compute_quarter_diff ks fid fname pf pt hp hn cfg = Inr qd"
    and "d \<in> set (all_positions qd)"
  shows "\<exists>k. position_diff (by_key hp) (by_key hn) (total_portfolio_prev qd)
               (total_portfolio_now qd) cfg k = Inr d"
proof -
  from compute_quarter_diff_positions [OF assms(1)] obtain ds where
    ds: "diffs_loop (by_key hp) (by_key hn) (sum_list (map h_value_usd hp))
           (sum_list (map h_value_usd hn)) cfg ks = Inr ds"
    and pos: "set (all_positions qd) = set ds" by blast
  from assms(2) pos have "d \<in> set ds" by simp
  from diffs_loop_in_set [OF ds this] show ?thesis
    using compute_quarter_diff_scalars(1,2) [OF assms(1)] by auto
qed

text \<open>
  Claim C3 says that a weight is the value divided by the period total, and \<^verbatim>\<open>None\<close> exactly
  when the period total is zero or the position is absent on that side, so that a position
  present with value 0 in a period with a positive total has weight 0. This is what the
  other weight computations of the repository do: the concentration weights of the same
  function (\<^verbatim>\<open>h.value_usd / total_now ... if total_now > 0\<close>) and the reports
  (\<^verbatim>\<open>h.value_usd / total_value if total_value else 0\<close>) guard the total only. The engine's
  line for the position weight guards with \<^verbatim>\<open>prev_value and total_prev\<close>; there
  \<^verbatim>\<open>prev_value and\<close> stands for the test against \<^verbatim>\<open>None\<close> (the growth rate pairs it with an
  explicit \<^verbatim>\<open>> 0\<close>), but 0 is falsy too, and the case of a present value 0 is lost. The
  engine at such an input: the position \<open>A\<close> is present on both sides with value 0, both
  totals are 100, and both its weights are \<^verbatim>\<open>None\<close>, not 0.
\<close>

theorem zero_value_weight_is_none:
  "compute_quarter_diff [''B|COM|NONE'', ''A|COM|NONE''] 1 ''FUND'' ''2024-03-31'' ''2024-06-30''
     ex_zero ex_zero default_config = Inr ex_zero_diff
   \<and> unchanged ex_zero_diff = [ex_zero_B, ex_zero_A]
   \<and> total_portfolio_prev ex_zero_diff = 100 \<and> total_portfolio_now ex_zero_diff = 100
   \<and> prev_value_usd ex_zero_A = Some 0 \<and> now_value_usd ex_zero_A = Some 0
   \<and> prev_weight ex_zero_A = None \<and> now_weight ex_zero_A = None"
  by (simp add: ex_zero_computed) (simp add: ex_zero_diff_def ex_zero_A_def)

text \<open>
  What the engine computes for every position, with that lost case: the weight of a side is
  \<^verbatim>\<open>None\<close> exactly when the period total is zero, the position is absent on that side, or
  its value on that side is 0; otherwise it is the value divided by the period total. The
  value of a side is \<^verbatim>\<open>None\<close> exactly when the matching key is absent on that side. So the
  engine departs from the claim at the positions of value 0 and nowhere else.
\<close>

lemma position_weights:
  assumes "compute_quarter_diff ks fid fname pf pt hp hn cfg = Inr qd"
    and "d \<in> set (all_positions qd)"
  shows "(prev_weight d = None \<longleftrightarrow>
            total_portfolio_prev qd = 0 \<or> prev_value_usd d = None \<or> prev_value_usd d = Some 0)
       \<and> (now_weight d = None \<longleftrightarrow>
            total_portfolio_now qd = 0 \<or> now_value_usd d = None \<or> now_value_usd d = Some 0)
       \<and> (\<forall>v w. prev_value_usd d = Some v \<and> prev_weight d = Some w
                 \<longrightarrow> w = rat_of_int v / rat_of_int (total_portfolio_prev qd))
       \<and> (\<forall>v w. now_value_usd d = Some v \<and> now_weight d = Some w
                 \<longrightarrow> w = rat_of_int v / rat_of_int (total_portfolio_now qd))
       \<and> (prev_value_usd d = None \<longleftrightarrow> position_key d \<notin> dom (by_key hp))
       \<and> (now_value_usd d = None \<longleftrightarrow> position_key d \<notin> dom (by_key hn))"
proof -
  from position_of_quarter_diff [OF assms] obtain k where
    k: "position_diff (by_key hp) (by_key hn) (total_portfolio_prev qd)
          (total_portfolio_now qd) cfg k = Inr d" by blast
  from position_diff_sides [OF k] show ?thesis
    by (auto simp: position_diff_quotients(1,2) [OF k] split: option.splits if_splits)
qed

lemma position_weights_example:
  "compute_quarter_diff [''A|COM|NONE'', ''B|COM|NONE'', ''C|COM|NONE''] 1 ''FUND''
     ''2024-03-31'' ''2024-06-30'' ex_prior ex_now default_config = Inr ex_scenario_diff
   \<and> ex_scen_A \<in> set (all_positions ex_scenario_diff)
   \<and> prev_value_usd ex_scen_A = Some 100 \<and> prev_weight ex_scen_A = Some (2 / 3)
   \<and> 2 / 3 = rat_of_int 100 / rat_of_int (total_portfolio_prev ex_scenario_diff)
   \<and> now_value_usd ex_scen_A = Some 150 \<and> now_weight ex_scen_A = Some (5 / 6)
   \<and> 5 / 6 = rat_of_int 150 / rat_of_int (total_portfolio_now ex_scenario_diff)"
proof -
  have a: "ex_scen_A \<in> set (all_positions ex_scenario_diff)"
    by (simp add: all_positions_def ex_scenario_diff_def)
  have v: "prev_value_usd ex_scen_A = Some 100 \<and> prev_weight ex_scen_A = Some (2 / 3)
      \<and> now_value_usd ex_scen_A = Some 150 \<and> now_weight ex_scen_A = Some (5 / 6)"
    by (simp add: ex_scen_A_def)
  from position_weights [OF ex_scenario_computed a] v a ex_scenario_computed
  show ?thesis by blast
qed

subsection \<open>Growth rate\<close>

text \<open>
  Claim C4 says that the growth rate is defined exactly when the prior value is greater
  than 0, also for an \<^verbatim>\<open>EXIT\<close>, where it is (0 - prior value) / prior value = -1. The
  repository says the same: the comment of the field is
  \<^verbatim>\<open>(now - prev) / prev, None if prev=0\<close>, the test \<^verbatim>\<open>test_exit_position\<close> builds an \<^verbatim>\<open>EXIT\<close>
  with \<^verbatim>\<open>growth_rate=-1.0\<close>, the ranking by growth rate and the note of the report exclude
  the \<^verbatim>\<open>NEW\<close> positions only, and the delta and the portfolio impact of the same loop take
  the absent side as 0 (\<^verbatim>\<open>now_value or 0\<close>). The engine computes the growth rate only
  \<^verbatim>\<open>if prev_value and prev_value > 0 and now_value is not None\<close>, and so leaves it out for
  every \<^verbatim>\<open>EXIT\<close>. The engine at such an input: the position \<open>A\<close> is sold out, its prior value
  is 100, and its growth rate is \<^verbatim>\<open>None\<close>, not -1.
\<close>

theorem exit_growth_is_none:
  "compute_quarter_diff [''A|COM|NONE''] 1 ''FUND'' ''2024-03-31'' ''2024-06-30''
     ex_exit_prev [] default_config = Inr ex_exit_diff
   \<and> sold_out ex_exit_diff = [ex_exit_A]
   \<and> change_type ex_exit_A = EXIT
   \<and> prev_value_usd ex_exit_A = Some 100
   \<and> growth_rate ex_exit_A = None"
  by (simp add: ex_exit_computed) (simp add: ex_exit_diff_def ex_exit_A_def)

text \<open>
  What the engine computes for every position: a growth rate exactly when the position is
  present on both sides and its prior value is greater than 0, and then
  (now value - prior value) / prior value; none for an \<^verbatim>\<open>EXIT\<close> and none for a \<^verbatim>\<open>NEW\<close>
  position. So the engine departs from the claim at the \<^verbatim>\<open>EXIT\<close> positions and nowhere else.
\<close>

lemma position_growth:
  assumes "compute_quarter_diff ks fid fname pf pt hp hn cfg = Inr qd"
    and "d \<in> set (all_positions qd)"
  shows "(growth_rate d \<noteq> None \<longleftrightarrow>
            (\<exists>p n. prev_value_usd d = Some p \<and> now_value_usd d = Some n \<and> p > 0))
       \<and> (\<forall>p n g. prev_value_usd d = Some p \<and> now_value_usd d = Some n \<and> growth_rate d = Some g
                 \<longrightarrow> g = rat_of_int (n - p) / rat_of_int p)
       \<and> (change_type d = EXIT \<longrightarrow> growth_rate d = None)
       \<and> (change_type d = NEW \<longrightarrow> growth_rate d = None)"
proof -
  from position_of_quarter_diff [OF assms] obtain k where
    k: "position_diff (by_key hp) (by_key hn) (total_portfolio_prev qd)
          (total_portfolio_now qd) cfg k = Inr d" by blast
  note f = position_diff_fields [OF k]
  from f(1,2,11) show ?thesis
    by (auto simp: position_diff_quotients(3) [OF k] classify_def
             split: option.splits if_splits)
qed

lemma position_growth_example:
  "compute_quarter_diff [''A|COM|NONE'', ''B|COM|NONE'', ''C|COM|NONE''] 1 ''FUND''
     ''2024-03-31'' ''2024-06-30'' ex_prior ex_now default_config = Inr ex_scenario_diff
   \<and> ex_scen_A \<in> set (all_positions ex_scenario_diff)
   \<and> prev_value_usd ex_scen_A = Some 100 \<and> now_value_usd ex_scen_A = Some 150
   \<and> growth_rate ex_scen_A = Some (1 / 2)
   \<and> 1 / 2 = rat_of_int (150 - 100) / rat_of_int 100
   \<and> ex_scen_B \<in> set (all_positions ex_scenario_diff)
   \<and> change_type ex_scen_B = EXIT \<and> growth_rate ex_scen_B = None"
proof -
  have a: "ex_scen_A \<in> set (all_positions ex_scenario_diff)"
    and b: "ex_scen_B \<in> set (all_positions ex_scenario_diff)"
    by (simp_all add: all_positions_def ex_scenario_diff_def)
  have v: "prev_value_usd ex_scen_A = Some 100 \<and> now_value_usd ex_scen_A = Some 150
      \<and> growth_rate ex_scen_A = Some (1 / 2) \<and> change_type ex_scen_B = EXIT"
    by (simp add: ex_scen_A_def ex_scen_B_def)
  from position_growth [OF ex_scenario_computed a] position_growth [OF ex_scenario_computed b]
    v a b ex_scenario_computed
  show ?thesis by blast
qed

subsection \<open>Concentration\<close>

lemma concentration_take: "concentration n ws = sum_list (take n ws)"
  by (simp add: concentration_def)

lemma sorted_desc_props:
  fixes ws :: "rat list"
  shows "mset (sorted_desc (\<lambda>w. w) ws) = mset ws"
    and "sorted (rev (sorted_desc (\<lambda>w. w) ws))"
proof -
  show "mset (sorted_desc (\<lambda>w. w) ws) = mset ws"
    by (simp add: sorted_desc_def)
  have "sorted (map uminus (sort_key uminus ws))"
    by (rule sorted_sort_key)
  then show "sorted (rev (sorted_desc (\<lambda>w. w) ws))"
    by (simp add: sorted_desc_def sorted_map sorted_wrt_rev)
qed

lemma sum_list_take_mono:
  fixes xs :: "rat list"
  assumes "\<forall>x \<in> set xs. 0 \<le> x" and "m \<le> n"
  shows "sum_list (take m xs) \<le> sum_list (take n xs)"
proof -
  from assms(2) obtain j where n: "n = m + j" by (auto simp: le_iff_add)
  have "take n xs = take m xs @ take j (drop m xs)"
    unfolding n by (rule take_add)
  moreover have "0 \<le> sum_list (take j (drop m xs))"
    using assms(1) by (intro sum_list_nonneg) (auto dest!: in_set_takeD in_set_dropD)
  ultimately show ?thesis by simp
qed

lemma sum_list_take_le:
  fixes xs :: "rat list"
  assumes "\<forall>x \<in> set xs. 0 \<le> x"
  shows "sum_list (take n xs) \<le> sum_list xs"
proof (cases "n \<le> length xs")
  case True
  from sum_list_take_mono [OF assms True] show ?thesis by simp
next
  case False
  then show ?thesis by simp
qed

lemma sum_list_weights:
  "sum_list (map (\<lambda>h. rat_of_int (h_value_usd h) / rat_of_int t) hs)
     = rat_of_int (sum_list (map h_value_usd hs)) / rat_of_int t"
  by (induction hs) (simp_all add: add_divide_distrib)

text \<open>
  On exact quotients: when the current total is positive and no current holding has a
  negative value, the two concentrations are the sums of the first 5 and the first 10 of the
  current weights sorted in descending order (all of them when there are fewer), and
  \<open>0 \<le> concentration_top5 \<le> concentration_top10 \<le> 1\<close> without any tolerance. So whatever
  the doubles of the implementation add to 1 comes from rounding alone.
\<close>

lemma concentration_exact:
  assumes "compute_quarter_diff ks fid fname pf pt hp hn cfg = Inr qd"
    and "total_portfolio_now qd > 0"
    and "\<forall>h \<in> set hn. 0 \<le> h_value_usd h"
  shows "\<exists>ws. mset ws = mset (map (\<lambda>h. rat_of_int (h_value_usd h)
                                        / rat_of_int (total_portfolio_now qd)) hn)
              \<and> sorted (rev ws)
              \<and> concentration_top5 qd = sum_list (take 5 ws)
              \<and> concentration_top10 qd = sum_list (take 10 ws)
              \<and> 0 \<le> concentration_top5 qd
              \<and> concentration_top5 qd \<le> concentration_top10 qd
              \<and> concentration_top10 qd \<le> 1"
proof -
  define raw where "raw = map (\<lambda>h. rat_of_int (h_value_usd h)
                                        / rat_of_int (total_portfolio_now qd)) hn"
  define ws where "ws = sorted_desc (\<lambda>w. w) raw"
  note sc = compute_quarter_diff_scalars [OF assms(1)]
  have "weights_loop (total_portfolio_now qd) hn = Inr raw"
    using assms(2) by (simp add: weights_loop_eq raw_def)
  from sc(5) [OF this] have c5: "concentration_top5 qd = sum_list (take 5 ws)"
    and c10: "concentration_top10 qd = sum_list (take 10 ws)"
    by (simp_all add: concentration_take ws_def)
  have ms: "mset ws = mset raw" and so: "sorted (rev ws)"
    unfolding ws_def by (rule sorted_desc_props)+
  have "\<forall>x \<in> set raw. 0 \<le> x"
    using assms(2,3) by (auto simp: raw_def)
  then have nn: "\<forall>x \<in> set ws. 0 \<le> x"
    using ms by (metis mset_eq_setD)
  have "sum_list ws = sum_list raw"
    using ms by (metis sum_mset_sum_list)
  also have "\<dots> = rat_of_int (sum_list (map h_value_usd hn)) / rat_of_int (total_portfolio_now qd)"
    unfolding raw_def by (rule sum_list_weights)
  also have "\<dots> = 1"
    using assms(2) sc(2) by simp
  finally have total: "sum_list ws = 1" .
  have "0 \<le> sum_list (take 5 ws)"
    using nn by (intro sum_list_nonneg) (auto dest: in_set_takeD)
  moreover have "sum_list (take 5 ws) \<le> sum_list (take 10 ws)"
    using nn by (intro sum_list_take_mono) simp_all
  moreover have "sum_list (take 10 ws) \<le> 1"
    using sum_list_take_le [OF nn, of 10] total by simp
  ultimately show ?thesis
    using ms so c5 c10 unfolding raw_def by auto
qed

lemma ex_six_concentration:
  "map_sum (\<lambda>e. e) (\<lambda>qd. (total_portfolio_now qd, concentration_top5 qd, concentration_top10 qd))
     (compute_quarter_diff ex_six_keys 1 ''FUND'' ''2024-03-31'' ''2024-06-30'' [] ex_six
        default_config)
   = Inr (210, 20 / 21, 1)"
  by code_simp

lemma concentration_exact_example:
  "\<exists>qd. compute_quarter_diff ex_six_keys 1 ''FUND'' ''2024-03-31'' ''2024-06-30'' [] ex_six
          default_config = Inr qd
        \<and> total_portfolio_now qd = 210
        \<and> concentration_top5 qd = 20 / 21 \<and> concentration_top10 qd = 1
        \<and> 0 \<le> concentration_top5 qd
        \<and> concentration_top5 qd \<le> concentration_top10 qd
        \<and> concentration_top10 qd \<le> 1"
proof -
  from ex_six_concentration obtain qd where
    qd: "compute_quarter_diff ex_six_keys 1 ''FUND'' ''2024-03-31'' ''2024-06-30'' [] ex_six
           default_config = Inr qd"
    and v: "total_portfolio_now qd = 210" "concentration_top5 qd = 20 / 21"
      "concentration_top10 qd = 1"
    by (cases "compute_quarter_diff ex_six_keys 1 ''FUND'' ''2024-03-31'' ''2024-06-30'' [] ex_six
           default_config") auto
  have pos: "total_portfolio_now qd > 0" using v by simp
  have nn: "\<forall>h \<in> set ex_six. 0 \<le> h_value_usd h"
    by (simp add: ex_six_def holding_def)
  from concentration_exact [OF qd pos nn] qd v show ?thesis by blast
qed

subsection \<open>Rounding to a double\<close>

lemma round_half_even_of_int: "round_half_even (of_int k) = k"
  by (simp add: round_half_even_def)

lemma round_half_even_floor:
  "\<lfloor>z\<rfloor> \<le> round_half_even z" "round_half_even z \<le> \<lfloor>z\<rfloor> + 1"
  by (simp_all add: round_half_even_def Let_def)

lemma round_half_even_mono: "x \<le> y \<Longrightarrow> round_half_even x \<le> round_half_even y"
proof -
  assume xy: "x \<le> y"
  have fl: "\<lfloor>x\<rfloor> \<le> \<lfloor>y\<rfloor>" using xy by (rule floor_mono)
  show ?thesis
  proof (cases "\<lfloor>x\<rfloor> < \<lfloor>y\<rfloor>")
    case True
    then show ?thesis using round_half_even_floor(2) [of x] round_half_even_floor(1) [of y]
      by linarith
  next
    case False
    then have eq: "\<lfloor>x\<rfloor> = \<lfloor>y\<rfloor>" using fl by simp
    then show ?thesis using xy by (auto simp: round_half_even_def Let_def)
  qed
qed

lemma round_half_even_error: "\<bar>of_int (round_half_even x) - x\<bar> \<le> 1 / 2"
proof -
  have "of_int \<lfloor>x\<rfloor> \<le> x" "x < of_int \<lfloor>x\<rfloor> + 1" by linarith+
  then show ?thesis by (auto simp: round_half_even_def Let_def)
qed

lemma bitlen_powi:
  assumes "0 < a"
  shows "2 powi (bitlen a - 1) \<le> (of_int a :: rat)" "of_int a < (2::rat) powi (bitlen a)"
proof -
  have pos: "1 \<le> bitlen a" using assms bitlen_eq_zero_iff [of a] bitlen_nonneg [of a] by linarith
  from bitlen_bounds [OF assms]
  have lo: "2 ^ nat (bitlen a - 1) \<le> a" and hi: "a < 2 ^ nat (bitlen a)" by simp_all
  have "(of_int (2 ^ nat (bitlen a - 1)) :: rat) \<le> of_int a" using lo by (simp only: of_int_le_iff)
  then show "2 powi (bitlen a - 1) \<le> (of_int a :: rat)" using pos by (simp add: power_int_def)
  have "(of_int a :: rat) < of_int (2 ^ nat (bitlen a))" using hi by (simp only: of_int_less_iff)
  then show "of_int a < (2::rat) powi (bitlen a)" using pos by (simp add: power_int_def)
qed

lemma powi2_pos: "0 < (2::rat) powi e"
  by simp

lemma powi2_add: "(2::rat) powi (a + b) = 2 powi a * 2 powi b"
  by (simp add: power_int_add)

lemma powi2_diff: "(2::rat) powi (a - b) = 2 powi a / 2 powi b"
  by (simp add: power_int_diff)

lemma powi2_mono: "a \<le> b \<Longrightarrow> (2::rat) powi a \<le> 2 powi b"
  by (rule power_int_increasing) simp_all

lemma powi2_less_imp: "(2::rat) powi a < 2 powi b \<Longrightarrow> a < b"
  using powi2_mono [of b a] by (cases "a < b") simp_all

lemma ilog2_bounds:
  assumes "0 < x"
  shows "2 powi (ilog2 x) \<le> x" "x < 2 powi (ilog2 x + 1)"
proof -
  obtain a b where q: "quotient_of x = (a, b)" by (cases "quotient_of x")
  have b: "0 < b" using quotient_of_denom_pos [OF q] .
  have x: "x = of_int a / of_int b" using quotient_of_div [OF q] .
  have a: "0 < a" using assms b x by (simp add: zero_less_divide_iff)
  define e where "e = bitlen a - bitlen b"
  have lo: "2 powi (e - 1) \<le> x"
  proof -
    have "e - 1 = (bitlen a - 1) - bitlen b" by (simp add: e_def)
    then have "2 powi (e - 1) = (2::rat) powi (bitlen a - 1) / 2 powi (bitlen b)"
      by (simp only: powi2_diff)
    also have "\<dots> \<le> of_int a / of_int b"
      using bitlen_powi [OF a] bitlen_powi [OF b] a b
      by (intro frac_le) simp_all
    finally show ?thesis by (simp add: x)
  qed
  have hi: "x < 2 powi (e + 1)"
  proof -
    have "of_int a / of_int b < (2::rat) powi (bitlen a) / 2 powi (bitlen b - 1)"
      using bitlen_powi [OF a] bitlen_powi [OF b] a b
      by (intro frac_less) simp_all
    also have "\<dots> = 2 powi (bitlen a - (bitlen b - 1))" by (simp only: powi2_diff)
    also have "bitlen a - (bitlen b - 1) = e + 1" by (simp add: e_def)
    finally show ?thesis by (simp add: x)
  qed
  have il: "ilog2 x = (if 2 powi e \<le> x then e else e - 1)"
    by (simp add: ilog2_def q e_def)
  show "2 powi (ilog2 x) \<le> x" using lo by (simp add: il)
  show "x < 2 powi (ilog2 x + 1)" using hi by (simp add: il)
qed


lemma powi2_le_imp: "(2::rat) powi a \<le> 2 powi b \<Longrightarrow> a \<le> b"
  using power_int_strict_increasing [of b a "2::rat"] by (cases "a \<le> b") simp_all

lemma powi2_nat: "0 \<le> e \<Longrightarrow> (2::rat) powi e = of_int (2 ^ nat e)"
  by (simp add: power_int_def)

lemma expo_ge: "- 1022 \<le> expo x"
  by (simp add: expo_def)

lemma expo_upper: "0 < x \<Longrightarrow> x < 2 powi (expo x + 1)"
proof -
  assume x: "0 < x"
  have "x < 2 powi (ilog2 x + 1)" using ilog2_bounds(2) [OF x] .
  also have "\<dots> \<le> 2 powi (expo x + 1)" using x by (intro powi2_mono) (simp add: expo_def)
  finally show ?thesis .
qed

lemma expo_lower: "0 < x \<Longrightarrow> - 1022 < expo x \<Longrightarrow> 2 powi (expo x) \<le> x"
  using ilog2_bounds(1) [of x] by (simp add: expo_def max_def split: if_splits)

lemma expo_le: "0 < x \<Longrightarrow> x \<le> 2 powi k \<Longrightarrow> - 1022 \<le> k \<Longrightarrow> expo x \<le> k"
proof -
  assume x: "0 < x" and le: "x \<le> 2 powi k" and k: "- 1022 \<le> k"
  have "2 powi (ilog2 x) \<le> (2::rat) powi k" using ilog2_bounds(1) [OF x] le by simp
  then have "ilog2 x \<le> k" by (rule powi2_le_imp)
  then show ?thesis using x k by (simp add: expo_def)
qed

lemma expo_less: "0 < x \<Longrightarrow> x < 2 powi k \<Longrightarrow> - 1022 < k \<Longrightarrow> expo x < k"
proof -
  assume x: "0 < x" and le: "x < 2 powi k" and k: "- 1022 < k"
  have "2 powi (ilog2 x) < (2::rat) powi k" using ilog2_bounds(1) [OF x] le by simp
  then have "ilog2 x < k" by (rule powi2_less_imp)
  then show ?thesis using x k by (simp add: expo_def)
qed

lemma quantum_pos: "0 < quantum x"
  by (simp add: quantum_def)

lemma round_to_mono: "0 < q \<Longrightarrow> x \<le> y \<Longrightarrow> round_to q x \<le> round_to q y"
  unfolding round_to_def
  by (intro mult_left_mono) (simp_all add: round_half_even_mono divide_right_mono)

lemma round_to_grid: "0 < q \<Longrightarrow> round_to q (q * of_int k) = q * of_int k"
  by (simp add: round_to_def round_half_even_of_int)

lemma round_to_error: "0 < q \<Longrightarrow> \<bar>round_to q x - x\<bar> \<le> q / 2"
proof -
  assume q: "0 < q"
  have "round_to q x - x = q * (of_int (round_half_even (x / q)) - x / q)"
    using q by (simp add: round_to_def algebra_simps)
  then have "\<bar>round_to q x - x\<bar> = q * \<bar>of_int (round_half_even (x / q)) - x / q\<bar>"
    using q by (simp add: abs_mult)
  also have "\<dots> \<le> q * (1 / 2)"
    using q round_half_even_error [of "x / q"] by (intro mult_left_mono) simp_all
  finally show ?thesis by simp
qed

lemma round_to_fixed: "0 < q \<Longrightarrow> y = q * of_int k \<Longrightarrow> round_to q y = y"
  by (simp add: round_to_grid)

lemma quantum_times: "0 \<le> k \<Longrightarrow> quantum x * of_int (2 ^ nat k) = 2 powi (expo x - 52 + k)"
  by (simp only: quantum_def powi2_add powi2_nat)

lemma quantum_53: "2 powi (expo x + 1) = quantum x * of_int (2 ^ nat 53)"
proof -
  have "expo x + 1 = expo x - 52 + 53" by simp
  then show ?thesis by (simp only: quantum_times)
qed

lemma quantum_52: "2 powi (expo x) = quantum x * of_int (2 ^ nat 52)"
proof -
  have "expo x = expo x - 52 + 52" by simp
  then have "2 powi (expo x) = (2::rat) powi (expo x - 52 + 52)" by simp
  then show ?thesis by (simp only: quantum_times)
qed

lemma round_double_le_power: "0 < x \<Longrightarrow> round_double x \<le> 2 powi (expo x + 1)"
proof -
  assume x: "0 < x"
  have "round_to (quantum x) x \<le> round_to (quantum x) (2 powi (expo x + 1))"
    using expo_upper [OF x] by (intro round_to_mono quantum_pos) (rule less_imp_le)
  also have "\<dots> = 2 powi (expo x + 1)"
    by (rule round_to_fixed [OF quantum_pos quantum_53])
  finally show ?thesis using x by (simp add: round_double_def)
qed

lemma round_double_ge_power:
  "0 < x \<Longrightarrow> 2 powi (expo x) \<le> x \<Longrightarrow> 2 powi (expo x) \<le> round_double x"
proof -
  assume x: "0 < x" and le: "2 powi (expo x) \<le> x"
  have "2 powi (expo x) = round_to (quantum x) (2 powi (expo x))"
    by (rule round_to_fixed [OF quantum_pos quantum_52, symmetric])
  also have "\<dots> \<le> round_to (quantum x) x"
    using le by (intro round_to_mono quantum_pos)
  finally show ?thesis using x by (simp add: round_double_def)
qed

lemma round_double_zero: "round_double 0 = 0"
  by (simp add: round_double_def)

lemma round_double_nonneg: "0 \<le> x \<Longrightarrow> 0 \<le> round_double x"
proof -
  assume x: "0 \<le> x"
  have "round_to (quantum x) 0 \<le> round_to (quantum x) x"
    using x by (rule round_to_mono [OF quantum_pos])
  moreover have "round_to (quantum x) 0 = 0" by (simp add: round_to_def round_half_even_def)
  ultimately show ?thesis by (simp add: round_double_def)
qed

lemma round_double_mono:
  assumes "0 \<le> x" "x \<le> y"
  shows "round_double x \<le> round_double y"
proof (cases "x = 0")
  case True
  then show ?thesis using assms round_double_nonneg [of y] by (simp add: round_double_zero)
next
  case False
  then have x: "0 < x" and y: "0 < y" using assms by simp_all
  consider "expo x = expo y" | "expo x < expo y" | "expo y < expo x" by linarith
  then show ?thesis
  proof cases
    case 1
    then have "quantum x = quantum y" by (simp add: quantum_def)
    then show ?thesis using x y assms(2) round_to_mono [OF quantum_pos, of x y y]
      by (simp add: round_double_def)
  next
    case 2
    have "round_double x \<le> 2 powi (expo x + 1)" using round_double_le_power [OF x] .
    also have "\<dots> \<le> 2 powi (expo y)" using 2 by (intro powi2_mono) simp
    also have "\<dots> \<le> round_double y"
      using 2 expo_ge [of x] by (intro round_double_ge_power y expo_lower) simp
    finally show ?thesis .
  next
    case 3
    then have "2 powi (expo x) \<le> x" using expo_ge [of y] by (intro expo_lower x) simp
    also have "x \<le> y" using assms(2) .
    also have "y < 2 powi (expo y + 1)" using expo_upper [OF y] .
    finally have "expo x < expo y + 1" by (rule powi2_less_imp)
    then show ?thesis using 3 by simp
  qed
qed

lemma round_double_grid:
  "z = quantum z * of_int k \<Longrightarrow> round_double z = z"
  using round_to_grid [OF quantum_pos, of z k] by (simp add: round_double_def)

lemma round_double_idem:
  assumes "0 \<le> x"
  shows "round_double (round_double x) = round_double x"
proof (cases "round_double x = 0")
  case True
  then show ?thesis by (simp add: round_double_zero)
next
  case False
  define z where "z = round_double x"
  have x: "0 < x" using assms False by (cases "x = 0") (simp_all add: round_double_zero)
  have z: "0 < z" using False round_double_nonneg [OF assms] by (simp add: z_def)
  define n where "n = round_half_even (x / quantum x)"
  have zn: "z = quantum x * of_int n" using x by (simp add: z_def round_double_def round_to_def n_def)
  have up: "z \<le> 2 powi (expo x + 1)" using round_double_le_power [OF x] by (simp add: z_def)
  have "expo z \<le> expo x + 1" using expo_ge [of x] by (intro expo_le z up) simp
  then consider "expo z \<le> expo x" | "expo z = expo x + 1" by linarith
  then have "round_double z = z"
  proof cases
    case 1
    define k where "k = expo x - expo z"
    have k: "0 \<le> k" using 1 by (simp add: k_def)
    have "quantum x = quantum z * of_int (2 ^ nat k)"
      using quantum_times [OF k, of z] by (simp add: k_def quantum_def)
    then have "z = quantum z * of_int (2 ^ nat k * n)" by (simp add: zn)
    then show ?thesis by (rule round_double_grid)
  next
    case 2
    then have "2 powi (expo z) \<le> z" using expo_ge [of x] by (intro expo_lower z) simp
    then have "z = 2 powi (expo z)" using up 2 by simp
    also have "\<dots> = quantum z * of_int (2 ^ nat 52)" by (rule quantum_52)
    finally show ?thesis by (rule round_double_grid)
  qed
  then show ?thesis by (simp add: z_def)
qed

lemma round_double_error:
  assumes "0 \<le> x" "x < 2"
  shows "\<bar>round_double x - x\<bar> \<le> 1 / 2 ^ 53"
proof (cases "x = 0")
  case True
  then show ?thesis by (simp add: round_double_zero)
next
  case False
  then have x: "0 < x" using assms by simp
  have "expo x < 1" using assms(2) by (intro expo_less x) simp_all
  then have "quantum x \<le> 2 powi (- 52)" unfolding quantum_def by (intro powi2_mono) simp
  then have q: "quantum x / 2 \<le> 1 / 2 ^ 53" by (simp add: power_int_minus field_simps)
  have "\<bar>round_double x - x\<bar> \<le> quantum x / 2"
    using round_to_error [OF quantum_pos, of x x] False by (simp add: round_double_def)
  then show ?thesis using q by linarith
qed


lemma round_double_one: "round_double 1 = 1"
  by code_simp

lemma round_double_two: "round_double 2 = 2"
  by code_simp

lemma not_overflows_small:
  assumes "0 \<le> r" "r \<le> 2"
  shows "\<not> overflows r"
proof (cases "r = 0")
  case True
  then show ?thesis by (simp add: overflows_def)
next
  case False
  then have r: "0 < r" using assms by simp
  have "2 powi (ilog2 r) \<le> r" using ilog2_bounds(1) [OF r] .
  also have "r \<le> 2 powi 1" using assms(2) by simp
  finally have "ilog2 r \<le> 1" by (rule powi2_le_imp)
  then show ?thesis using r by (simp add: overflows_def)
qed

lemma truediv_double_unit:
  assumes "0 \<le> a" "a \<le> b" "0 < b"
  shows "truediv_double a b = Inr (round_double (rat_of_int a / rat_of_int b))"
    and "0 \<le> round_double (rat_of_int a / rat_of_int b)"
    and "round_double (rat_of_int a / rat_of_int b) \<le> 1"
proof -
  define q where "q = rat_of_int a / rat_of_int b"
  have q0: "0 \<le> q" using assms by (simp add: q_def)
  have q1: "q \<le> 1" using assms by (simp add: q_def)
  show lo: "0 \<le> round_double (rat_of_int a / rat_of_int b)"
    using round_double_nonneg [OF q0] by (simp add: q_def)
  show hi: "round_double (rat_of_int a / rat_of_int b) \<le> 1"
    using round_double_mono [OF q0 q1] by (simp add: q_def round_double_one)
  have "\<not> overflows (round_double (rat_of_int a / rat_of_int b))"
    using lo hi by (intro not_overflows_small) simp_all
  then show "truediv_double a b = Inr (round_double (rat_of_int a / rat_of_int b))"
    using assms(3) by (simp add: truediv_double_def Let_def)
qed

lemma value_le_total:
  "\<forall>h \<in> set hs. 0 \<le> h_value_usd h \<Longrightarrow> h \<in> set hs
     \<Longrightarrow> h_value_usd h \<le> sum_list (map h_value_usd hs)"
proof (induction hs)
  case Nil
  then show ?case by simp
next
  case (Cons g hs)
  have nn: "0 \<le> sum_list (map h_value_usd hs)"
    using Cons.prems(1) by (intro sum_list_nonneg) auto
  show ?case
  proof (cases "h = g")
    case True
    then show ?thesis using nn by simp
  next
    case False
    then have "h_value_usd h \<le> sum_list (map h_value_usd hs)"
      using Cons by simp
    then show ?thesis using Cons.prems(1) by simp
  qed
qed

lemma weights_loop_double_eq:
  assumes "0 < t" and "\<forall>h \<in> set hs. 0 \<le> h_value_usd h \<and> h_value_usd h \<le> t"
  shows "weights_loop_double t hs
           = Inr (map (\<lambda>h. round_double (rat_of_int (h_value_usd h) / rat_of_int t)) hs)"
  using assms(2)
proof (induction hs)
  case Nil
  then show ?case by simp
next
  case (Cons h hs)
  have "truediv_double (h_value_usd h) t
          = Inr (round_double (rat_of_int (h_value_usd h) / rat_of_int t))"
    using Cons.prems assms(1) by (intro truediv_double_unit(1)) simp_all
  then show ?case using Cons assms(1) by simp
qed

lemma subfamily_sum_bound:
  fixes xs ws :: "rat list"
  assumes "mset ws \<subseteq># image_mset f (mset xs)"
    and "\<forall>x \<in> set xs. 0 \<le> x \<and> f x \<le> x + e"
  shows "sum_list ws \<le> sum_list xs + of_nat (length ws) * e"
  using assms
proof (induction ws arbitrary: xs)
  case Nil
  then show ?case by (simp add: sum_list_nonneg)
next
  case (Cons w ws)
  have "w \<in># image_mset f (mset xs)"
    using Cons.prems(1) by (simp add: insert_subset_eq_iff)
  then obtain x where x: "x \<in> set xs" and fx: "f x = w" by auto
  define ys where "ys = remove1 x xs"
  have ms: "mset xs = add_mset x (mset ys)" using x by (simp add: ys_def)
  have "add_mset w (mset ws) \<subseteq># add_mset w (image_mset f (mset ys))"
    using Cons.prems(1) by (simp add: ms fx)
  then have sub: "mset ws \<subseteq># image_mset f (mset ys)" by simp
  have "\<forall>y \<in> set ys. 0 \<le> y \<and> f y \<le> y + e"
    using Cons.prems(2) by (auto simp: ys_def dest: notin_set_remove1)
  from Cons.IH [OF sub this] have ih: "sum_list ws \<le> sum_list ys + of_nat (length ws) * e" .
  have "sum_list xs = x + sum_list ys"
    using arg_cong [OF ms, of sum_mset] by (simp add: sum_mset_sum_list)
  moreover have "w \<le> x + e" using Cons.prems(2) x fx by auto
  ultimately show ?case using ih by (simp add: algebra_simps)
qed

lemma foldl_float_add_bounds:
  assumes "0 \<le> a" "round_double a = a"
    and "\<forall>w \<in> set ws. 0 \<le> w"
    and "a + sum_list ws + of_nat (length ws) / 2 ^ 53 < 2"
  shows "\<exists>s. foldl float_add (Float a) ws = Float s \<and> a \<le> s
             \<and> s \<le> a + sum_list ws + of_nat (length ws) / 2 ^ 53 \<and> round_double s = s"
  using assms
proof (induction ws arbitrary: a)
  case Nil
  then show ?case by simp
next
  case (Cons w ws)
  define s1 where "s1 = round_double (a + w)"
  have w: "0 \<le> w" and nn: "\<forall>w \<in> set ws. 0 \<le> w" using Cons.prems(3) by simp_all
  have rest: "0 \<le> sum_list ws" using nn by (intro sum_list_nonneg) simp
  have len: "(0::rat) \<le> of_nat (length ws) / 2 ^ 53" by simp
  have aw0: "0 \<le> a + w" using Cons.prems(1) w by simp
  have aw2: "a + w < 2" using Cons.prems(4) rest len by (simp add: add_divide_distrib)
  have err: "\<bar>s1 - (a + w)\<bar> \<le> 1 / 2 ^ 53"
    unfolding s1_def by (rule round_double_error [OF aw0 aw2])
  have "round_double a \<le> round_double (a + w)"
    using Cons.prems(1) w by (intro round_double_mono) simp_all
  then have lo: "a \<le> s1" by (simp add: Cons.prems(2) s1_def)
  have hi: "s1 \<le> a + w + 1 / 2 ^ 53" using err by linarith
  have idem: "round_double s1 = s1" unfolding s1_def by (rule round_double_idem [OF aw0])
  have s10: "0 \<le> s1" using lo Cons.prems(1) by simp
  have "round_double (a + w) \<le> round_double 2"
    using aw0 aw2 by (intro round_double_mono) simp_all
  then have "s1 \<le> 2" by (simp add: s1_def round_double_two)
  then have "\<not> overflows s1" using s10 by (intro not_overflows_small)
  then have step: "float_add (Float a) w = Float s1"
    by (simp add: overflow_to_inf_def s1_def)
  have bound: "s1 + sum_list ws + of_nat (length ws) / 2 ^ 53
                 \<le> a + sum_list (w # ws) + of_nat (length (w # ws)) / 2 ^ 53"
    using hi by (simp add: add_divide_distrib)
  then have "s1 + sum_list ws + of_nat (length ws) / 2 ^ 53 < 2"
    using Cons.prems(4) by linarith
  from Cons.IH [OF s10 idem nn this] obtain s where
    s: "foldl float_add (Float s1) ws = Float s" "s1 \<le> s"
      "s \<le> s1 + sum_list ws + of_nat (length ws) / 2 ^ 53" "round_double s = s"
    by blast
  have "foldl float_add (Float a) (w # ws) = Float s" using s(1) step by simp
  moreover have "a \<le> s" using lo s(2) by simp
  moreover have "s \<le> a + sum_list (w # ws) + of_nat (length (w # ws)) / 2 ^ 53"
    using s(3) bound by linarith
  ultimately show ?case using s(4) by blast
qed

lemma concentration_double_take: "concentration_double n ws = py_sum (take n ws)"
  by (simp add: concentration_double_def)


lemma mset_take_subset: "mset (take n xs) \<subseteq># mset xs"
proof -
  have "mset xs = mset (take n xs) + mset (drop n xs)"
    by (simp only: mset_append [symmetric] append_take_drop_id)
  then show ?thesis by simp
qed


subsection \<open>Concentration in double precision\<close>

lemma ex_round_computed:
  "concentration_diagnostics ex_round = Inr (Float (1 + 1 / 2 ^ 52), Float (1 + 1 / 2 ^ 52))"
  by code_simp

text \<open>
  Claim C9 says that \<open>0 \<le> concentration_top5 \<le> concentration_top10 \<le> 1.0\<close> for every current
  list with a positive total and no negative value, with no tolerance. In double precision
  the last bound fails. The three holdings below have the values 18, 9 and 1; their weights
  are the doubles nearest to 18/28, 9/28 and 1/28, the rounded sum of these from left to
  right is \<open>1 + 2 ^ -52\<close>, which Python prints as 1.0000000000000002, and both concentrations
  are this number.
\<close>

theorem rounded_concentration_exceeds_one:
  "map h_value_usd ex_round = [18, 9, 1]
   \<and> concentration_diagnostics ex_round = Inr (Float (1 + 1 / 2 ^ 52), Float (1 + 1 / 2 ^ 52))
   \<and> (1::rat) < 1 + 1 / 2 ^ 52"
  by (simp add: ex_round_computed) (simp add: ex_round_def holding_def)

text \<open>
  Claim C9, with the tolerance that the rounding needs. When the current total is positive
  and no current holding has a negative value, the lines raise nothing and return two
  finite doubles, the sums of the first 5 and the first 10 of the rounded weights sorted in
  descending order (all of them when there are fewer), with
  \<open>0 \<le> concentration_top5 \<le> concentration_top10 \<le> 1 + 20 * 2 ^ -53\<close>: each of the at most ten
  quotients and ten additions is off by at most \<open>2 ^ -53\<close>.
\<close>

theorem concentration_bounds_double:
  assumes "0 < sum_list (map h_value_usd holdings_now)"
    and "\<forall>h \<in> set holdings_now. 0 \<le> h_value_usd h"
  shows "\<exists>c5 c10. concentration_diagnostics holdings_now = Inr (Float c5, Float c10)
                 \<and> 0 \<le> c5 \<and> c5 \<le> c10 \<and> c10 \<le> 1 + 20 / 2 ^ 53"
proof -
  define t where "t = sum_list (map h_value_usd holdings_now)"
  define qs where "qs = map (\<lambda>h. rat_of_int (h_value_usd h) / rat_of_int t) holdings_now"
  define raw where "raw = map round_double qs"
  define ws where "ws = sorted_desc (\<lambda>w. w) raw"
  define A where "A = take 5 ws"
  define B where "B = take 5 (drop 5 ws)"
  have t: "0 < t" using assms(1) by (simp add: t_def)
  have vs: "\<forall>h \<in> set holdings_now. 0 \<le> h_value_usd h \<and> h_value_usd h \<le> t"
    using assms(2) value_le_total [OF assms(2)] by (simp add: t_def)
  have "weights_loop_double t holdings_now = Inr raw"
    using weights_loop_double_eq [OF t vs] by (simp add: raw_def qs_def comp_def)
  then have res: "concentration_diagnostics holdings_now = Inr (py_sum A, py_sum (take 10 ws))"
    by (simp add: concentration_diagnostics_def Let_def t_def [symmetric] ws_def
        concentration_double_take A_def)
  have AB: "take 10 ws = A @ B"
    using take_add [of 5 5 ws] by (simp add: A_def B_def)
  have qs01: "\<forall>q \<in> set qs. 0 \<le> q \<and> q \<le> 1"
    using vs t by (auto simp: qs_def)
  have qerr: "\<forall>q \<in> set qs. 0 \<le> q \<and> round_double q \<le> q + 1 / 2 ^ 53"
  proof
    fix q assume "q \<in> set qs"
    then have q: "0 \<le> q" "q < 2" using qs01 by auto
    from round_double_error [OF q] show "0 \<le> q \<and> round_double q \<le> q + 1 / 2 ^ 53"
      using q(1) by linarith
  qed
  have total: "sum_list qs = 1"
    using t sum_list_weights [of t holdings_now] by (simp add: qs_def t_def)
  have ms: "mset ws = image_mset round_double (mset qs)"
    by (simp add: ws_def raw_def sorted_desc_props(1))
  have "set ws = round_double ` set qs"
    using arg_cong [OF ms, of set_mset] by simp
  then have nn: "\<forall>w \<in> set ws. 0 \<le> w"
    using qs01 round_double_nonneg by auto
  have nnA: "\<forall>w \<in> set A. 0 \<le> w" using nn by (auto simp: A_def dest: in_set_takeD)
  have nnB: "\<forall>w \<in> set B. 0 \<le> w"
    using nn by (auto simp: B_def dest!: in_set_takeD in_set_dropD)
  have lenA: "length A \<le> 5" and lenB: "length B \<le> 5" by (simp_all add: A_def B_def)
  have "mset (A @ B) \<subseteq># image_mset round_double (mset qs)"
    using mset_take_subset [of 10 ws] by (simp only: AB [symmetric] ms)
  from subfamily_sum_bound [OF this qerr]
  have "sum_list (A @ B) \<le> 1 + of_nat (length (A @ B)) * (1 / 2 ^ 53)" by (simp only: total)
  also have "\<dots> \<le> 1 + 10 * (1 / 2 ^ 53)"
    using lenA lenB by (intro add_left_mono mult_right_mono) simp_all
  finally have sumAB: "sum_list A + sum_list B \<le> 1 + 10 / 2 ^ 53" by simp
  have sB: "0 \<le> sum_list B" using nnB by (intro sum_list_nonneg) simp
  have sA: "0 \<le> sum_list A" using nnA by (intro sum_list_nonneg) simp
  have lA: "(of_nat (length A) :: rat) / 2 ^ 53 \<le> 5 / 2 ^ 53"
    using lenA by (intro divide_right_mono) simp_all
  have lB: "(of_nat (length B) :: rat) / 2 ^ 53 \<le> 5 / 2 ^ 53"
    using lenB by (intro divide_right_mono) simp_all
  have "0 + sum_list A + of_nat (length A) / 2 ^ 53 < 2"
    using sumAB sB lA by simp
  from foldl_float_add_bounds [OF _ round_double_zero nnA this]
  obtain c5 where c5: "foldl float_add (Float 0) A = Float c5" "0 \<le> c5"
    "c5 \<le> 0 + sum_list A + of_nat (length A) / 2 ^ 53" "round_double c5 = c5"
    by auto
  have "c5 + sum_list B + of_nat (length B) / 2 ^ 53 < 2"
    using c5(3) sumAB lA lB by simp
  from foldl_float_add_bounds [OF c5(2) c5(4) nnB this]
  obtain c10 where c10: "foldl float_add (Float c5) B = Float c10" "c5 \<le> c10"
    "c10 \<le> c5 + sum_list B + of_nat (length B) / 2 ^ 53"
    by auto
  have "py_sum A = Float c5" using c5(1) by (simp add: py_sum_def)
  moreover have "py_sum (take 10 ws) = Float c10"
    using c5(1) c10(1) by (simp add: py_sum_def AB)
  moreover have "c10 \<le> 1 + 20 / 2 ^ 53"
    using c10(3) c5(3) sumAB lA lB by simp
  ultimately show ?thesis using res c5(2) c10(2) by simp
qed

theorem concentration_bounds_double_witness:
  "\<exists>c5 c10. concentration_diagnostics ex_six = Inr (Float c5, Float c10)
            \<and> sum_list (map h_value_usd ex_six) = 210
            \<and> 0 \<le> c5 \<and> c5 \<le> c10 \<and> c10 \<le> 1 + 20 / 2 ^ 53"
proof -
  have total: "sum_list (map h_value_usd ex_six) = 210"
    by (simp add: ex_six_def holding_def)
  have pos: "0 < sum_list (map h_value_usd ex_six)" by (simp add: total)
  have nn: "\<forall>h \<in> set ex_six. 0 \<le> h_value_usd h"
    by (simp add: ex_six_def holding_def)
  from concentration_bounds_double [OF pos nn] total show ?thesis by blast
qed

section \<open>Properties of the signal detector\<close>

subsection \<open>Histories\<close>

lemma dict_append_keys:
  "map fst (dict_append k v d) = (if k \<in> set (map fst d) then map fst d else map fst d @ [k])"
  by (auto simp: dict_append_def Let_def split_beta)

lemma map_of_map_keyed:
  "map_of (map (\<lambda>(a, b). (a, f a b)) xs) x = map_option (f x) (map_of xs x)"
  by (induction xs) auto

lemma dict_append_lookup:
  "map_of (dict_append k v d) k' =
     (if k' = k then Some ((case map_of d k of None \<Rightarrow> [] | Some vs \<Rightarrow> vs) @ [v])
      else map_of d k')"
proof -
  have eq: "(\<lambda>(k', vs). if k' = k then (k', vs @ [v]) else (k', vs))
            = (\<lambda>(a, b). (a, (if a = k then b @ [v] else b)))"
    by (auto simp: fun_eq_iff)
  show ?thesis
  proof (cases "k \<in> set (map fst d)")
    case True
    then obtain vs where "map_of d k = Some vs"
      by (metis map_of_eq_None_iff not_Some_eq set_map)
    with True show ?thesis
      by (simp add: dict_append_def Let_def eq map_of_map_keyed option.map_ident)
  next
    case False
    then have "map_of d k = None"
      by (simp add: map_of_eq_None_iff)
    with False show ?thesis
      by (simp add: dict_append_def Let_def eq map_of_map_keyed map_add_def option.map_ident
               split: option.splits)
  qed
qed

lemma dict_append_key_set:
  "fst ` set (dict_append k v d) = insert k (fst ` set d)"
  using dict_append_keys [of k v d]
  by (metis (no_types, lifting) Un_insert_right insert_absorb list.set(1,2) set_append
      set_map sup_bot.right_neutral)

lemma dict_append_distinct:
  "distinct (map fst d) \<Longrightarrow> distinct (map fst (dict_append k v d))"
  by (simp add: dict_append_keys)

lemma foldl_dict_append_keys:
  "distinct (map fst d) \<Longrightarrow>
     distinct (map fst (foldl (\<lambda>ph ce. dict_append (fst ce) (snd ce) ph) d xs))
     \<and> fst ` set (foldl (\<lambda>ph ce. dict_append (fst ce) (snd ce) ph) d xs)
         = fst ` set d \<union> fst ` set xs"
proof (induction xs arbitrary: d)
  case Nil
  then show ?case by simp
next
  case (Cons x xs)
  have "distinct (map fst (dict_append (fst x) (snd x) d))"
    using Cons.prems by (rule dict_append_distinct)
  from Cons.IH [OF this] show ?case
    by (simp add: dict_append_key_set)
qed

lemma foldl_dict_append_lookup:
  "map_of (foldl (\<lambda>ph ce. dict_append (fst ce) (snd ce) ph) d xs) c
     = (if c \<in> fst ` set xs
        then Some ((case map_of d c of None \<Rightarrow> [] | Some vs \<Rightarrow> vs)
                   @ map snd (filter (\<lambda>p. fst p = c) xs))
        else map_of d c)"
proof (induction xs arbitrary: d)
  case Nil
  show ?case by simp
next
  case (Cons x xs)
  show ?case
  proof (cases "fst x = c")
    case True
    have "filter (\<lambda>p. fst p = c) xs = []" if "c \<notin> fst ` set xs"
      using that by (auto simp: filter_empty_conv)
    with True show ?thesis
      by (simp add: Cons.IH dict_append_lookup)
  next
    case False
    then show ?thesis
      by (simp add: Cons.IH dict_append_lookup)
  qed
qed

lemma position_history_fold:
  "position_history qdiffs
     = foldl (\<lambda>ph ce. dict_append (fst ce) (snd ce) ph) [] (traversal qdiffs)"
proof -
  have "foldl (\<lambda>ph diff.
                 foldl (\<lambda>ph pos. dict_append (cusip pos) (entry_of diff pos) ph) ph
                   (all_positions diff)) ph0 ds
          = foldl (\<lambda>ph ce. dict_append (fst ce) (snd ce) ph) ph0
              (concat (map (\<lambda>diff. map (\<lambda>pos. (cusip pos, entry_of diff pos))
                                     (all_positions diff)) ds))" for ph0 ds
    by (induction ds arbitrary: ph0) (simp_all add: foldl_map)
  then show ?thesis
    by (simp add: position_history_def traversal_def entry_of_def)
qed

text \<open>
  What the detector builds: one history for each cusip that occurs, holding the entries of
  all positions with that cusip in the order of the traversal.
\<close>

lemma history_per_cusip:
  "distinct (map fst (position_history qdiffs))
   \<and> set (map fst (position_history qdiffs)) = fst ` set (traversal qdiffs)
   \<and> map_of (position_history qdiffs) c
       = (if c \<in> fst ` set (traversal qdiffs)
          then Some (map snd (filter (\<lambda>p. fst p = c) (traversal qdiffs)))
          else None)"
  using foldl_dict_append_keys [of "[]" "traversal qdiffs"]
    foldl_dict_append_lookup [of "[]" "traversal qdiffs" c]
  by (simp add: position_history_fold)

lemma ex_opt_computed:
  "compute_quarter_diff [''X|COM|NONE'', ''X|COM|Call'', ''X|COM|Put''] 1 ''FUND''
     ''2024-03-31'' ''2024-06-30'' ex_opt_prev ex_opt_now default_config = Inr ex_opt_diff"
  by code_simp

text \<open>
  Claim C2 says that two positions contribute to the same history exactly when the three
  components of their matching key (security identifier, title of class, option flag) are
  equal. The detector keys the history by \<^verbatim>\<open>pos.cusip\<close> alone. Below, the shares, the call
  and the put of one security are three positions with three matching keys, and the
  detector puts all three into the one history of cusip \<open>X\<close>: three entries of the same
  quarter.
\<close>

theorem history_merges_options:
  "compute_quarter_diff [''X|COM|NONE'', ''X|COM|Call'', ''X|COM|Put''] 1 ''FUND''
     ''2024-03-31'' ''2024-06-30'' ex_opt_prev ex_opt_now default_config = Inr ex_opt_diff
   \<and> all_positions ex_opt_diff = [ex_opt_S, ex_opt_C, ex_opt_P]
   \<and> position_key ex_opt_S = ''X|COM|NONE''
   \<and> position_key ex_opt_C = ''X|COM|Call''
   \<and> position_key ex_opt_P = ''X|COM|Put''
   \<and> position_history [ex_opt_diff] =
         [(''X'', [(''2024-06-30'', Some 150, Some (15 / 26), INCREASE),
                   (''2024-06-30'', Some 80, Some (4 / 13), INCREASE),
                   (''2024-06-30'', Some 30, Some (3 / 26), INCREASE)])]"
  by (simp add: ex_opt_computed) code_simp

text \<open>
  From these three entries of one quarter the detector reports an accumulation over three
  consecutive quarters.
\<close>

lemma merged_history_signal:
  "fund_signals no_clusters first_seen_keys 1 ''FUND''
     [(''2024-06-30'', ex_opt_now), (''2024-03-31'', ex_opt_prev)] default_config
   = Inr [\<lparr> signal_type = ''consistent_accumulator'',
               description = ''XCORP increased 3 consecutive quarters'',
               holdings = [''XCORP''],
               quarters = [''2024-06-30'', ''2024-06-30'', ''2024-06-30''],
               strength = ''moderate'',
               details = [(''consecutive_increases'', DInt 3)] \<rparr>]"
  by code_simp

subsection \<open>Consistent accumulator\<close>

lemma prefix_replicate_break:
  "x \<noteq> y \<Longrightarrow> prefix (replicate n y) (replicate m y @ x # t) \<longleftrightarrow> n \<le> m"
proof (induction n arbitrary: m)
  case 0
  show ?case by simp
next
  case (Suc n)
  then show ?case by (cases m) auto
qed

lemma prefix_replicate_same: "prefix (replicate n y) (replicate m y) \<longleftrightarrow> n \<le> m"
proof (induction n arbitrary: m)
  case 0
  show ?case by simp
next
  case (Suc n)
  then show ?case by (cases m) auto
qed

lemma sublist_replicate_same: "sublist (replicate n y) (replicate m y) \<longleftrightarrow> n \<le> m"
proof (induction m)
  case 0
  show ?case by auto
next
  case (Suc m)
  have "sublist (replicate n y) (replicate (Suc m) y)
          \<longleftrightarrow> prefix (replicate n y) (replicate (Suc m) y) \<or> sublist (replicate n y) (replicate m y)"
    by (simp add: sublist_Cons_right)
  then show ?case
    using Suc by (auto simp: prefix_replicate_same simp del: replicate_Suc)
qed

lemma sublist_replicate_break:
  assumes "x \<noteq> y"
  shows "sublist (replicate n y) (replicate m y @ x # t) \<longleftrightarrow> n \<le> m \<or> sublist (replicate n y) t"
proof (induction m)
  case 0
  have "prefix (replicate n y) (x # t) \<longleftrightarrow> n = 0"
    using prefix_replicate_break [OF assms, of n 0 t] by simp
  then show ?case
    by (auto simp: sublist_Cons_right)
next
  case (Suc m)
  have "sublist (replicate n y) (replicate (Suc m) y @ x # t)
          \<longleftrightarrow> prefix (replicate n y) (replicate (Suc m) y @ x # t)
              \<or> sublist (replicate n y) (replicate m y @ x # t)"
    by (simp add: sublist_Cons_right)
  then show ?case
    using Suc prefix_replicate_break [OF assms, of n "Suc m" t] by auto
qed

lemma accumulator_scan_max:
  "accumulator_scan h ci mc iq = (ci', mc', iq') \<Longrightarrow>
     n \<le> max mc' ci' \<longleftrightarrow>
       n \<le> mc \<or> sublist (replicate n INCREASE) (replicate ci INCREASE @ change_types h)"
proof (induction h arbitrary: ci mc iq)
  case Nil
  then show ?case
    by (auto simp: change_types_def sublist_replicate_same)
next
  case (Cons e h)
  obtain p v w ct where e: "e = (p, v, w, ct)" by (cases e) auto
  show ?case
  proof (cases "ct = INCREASE")
    case True
    with Cons.prems e have "accumulator_scan h (ci + 1) mc (iq @ [p]) = (ci', mc', iq')"
      by simp
    from Cons.IH [OF this] show ?thesis
      using True e by (simp add: change_types_def replicate_app_Cons_same)
  next
    case False
    with Cons.prems e have "accumulator_scan h 0 (max mc ci) [] = (ci', mc', iq')"
      by simp
    from Cons.IH [OF this] show ?thesis
      using False e sublist_replicate_break [of ct INCREASE n ci "change_types h"]
      by (auto simp: change_types_def)
  qed
qed

lemma trailing_increases_all:
  "trailing_increases l = l \<longleftrightarrow> (\<forall>x \<in> set l. snd (snd (snd x)) = INCREASE)"
proof -
  have "trailing_increases l = l
          \<longleftrightarrow> takeWhile (\<lambda>e. snd (snd (snd e)) = INCREASE) (rev l) = rev l"
    unfolding trailing_increases_def by (rule rev_swap)
  then show ?thesis by (simp add: takeWhile_eq_all_conv)
qed

lemma trailing_increases_Cons:
  "trailing_increases (e # h)
     = (if \<forall>x \<in> set h. snd (snd (snd x)) = INCREASE
        then (if snd (snd (snd e)) = INCREASE then e # h else h)
        else trailing_increases h)"
proof (cases "\<forall>x \<in> set h. snd (snd (snd x)) = INCREASE")
  case True
  then have "takeWhile (\<lambda>e. snd (snd (snd e)) = INCREASE) (rev h @ [e])
               = rev h @ takeWhile (\<lambda>e. snd (snd (snd e)) = INCREASE) [e]"
    by (intro takeWhile_append2) simp
  then have "trailing_increases (e # h) = (if snd (snd (snd e)) = INCREASE then e # h else h)"
    by (simp add: trailing_increases_def)
  then show ?thesis unfolding if_P [OF True] .
next
  case False
  then obtain x where "x \<in> set (rev h)" "\<not> snd (snd (snd x)) = INCREASE" by auto
  then have "takeWhile (\<lambda>e. snd (snd (snd e)) = INCREASE) (rev h @ [e])
               = takeWhile (\<lambda>e. snd (snd (snd e)) = INCREASE) (rev h)"
    by (rule takeWhile_append1)
  then have "trailing_increases (e # h) = trailing_increases h"
    by (simp add: trailing_increases_def)
  then show ?thesis unfolding if_not_P [OF False] .
qed

lemma accumulator_scan_quarters:
  "accumulator_scan h ci mc iq = (ci', mc', iq') \<Longrightarrow>
     iq' = (if \<forall>x \<in> set h. snd (snd (snd x)) = INCREASE then iq @ map fst h
            else map fst (trailing_increases h))"
proof (induction h arbitrary: ci mc iq)
  case Nil
  then show ?case by simp
next
  case (Cons e h)
  obtain p v w ct where e: "e = (p, v, w, ct)" by (cases e) auto
  show ?case
  proof (cases "ct = INCREASE")
    case True
    with Cons.prems e have "accumulator_scan h (ci + 1) mc (iq @ [p]) = (ci', mc', iq')"
      by simp
    from Cons.IH [OF this] show ?thesis
      using True e by (simp add: trailing_increases_Cons)
  next
    case False
    with Cons.prems e have "accumulator_scan h 0 (max mc ci) [] = (ci', mc', iq')"
      by simp
    from Cons.IH [OF this] show ?thesis
      using False e by (simp add: trailing_increases_Cons)
  qed
qed

lemma accumulator_scan_lengths:
  "accumulator_scan h ci mc iq = (ci', mc', iq') \<Longrightarrow> length iq = ci \<Longrightarrow> length iq' = ci'"
proof (induction h arbitrary: ci mc iq)
  case Nil
  then show ?case by simp
next
  case (Cons e h)
  obtain p v w ct where e: "e = (p, v, w, ct)" by (cases e) auto
  show ?case
  proof (cases "ct = INCREASE")
    case True
    with Cons.prems e have "accumulator_scan h (ci + 1) mc (iq @ [p]) = (ci', mc', iq')"
      by simp
    from Cons.IH [OF this] Cons.prems(2) show ?thesis by simp
  next
    case False
    with Cons.prems e have "accumulator_scan h 0 (max mc ci) [] = (ci', mc', iq')"
      by simp
    from Cons.IH [OF this] show ?thesis by simp
  qed
qed

lemma accumulator_quarters:
  assumes "s \<in> set (consistent_accumulator names (c, h))"
  shows "quarters s = map fst (trailing_increases h)"
proof -
  obtain ci mc iq where sc: "accumulator_scan h 0 0 [] = (ci, mc, iq)"
    by (cases "accumulator_scan h 0 0 []") auto
  from accumulator_scan_quarters [OF sc]
  have iq: "iq = map fst (trailing_increases h)"
    by (simp add: trailing_increases_all [symmetric])
  from accumulator_scan_lengths [OF sc] have len: "length iq = ci" by simp
  from assms sc have "quarters s = last_n (max mc ci) iq"
    by (auto simp: consistent_accumulator_def Let_def split: if_splits)
  also have "\<dots> = iq"
    using len by (simp add: last_n_def)
  finally show ?thesis using iq by simp
qed

lemma accumulator_emits:
  "consistent_accumulator names (c, h) \<noteq> [] \<longleftrightarrow> has_increase_run 3 h"
proof -
  obtain ci mc iq where sc: "accumulator_scan h 0 0 [] = (ci, mc, iq)"
    by (cases "accumulator_scan h 0 0 []") auto
  from accumulator_scan_max [OF sc, of 3]
  have "3 \<le> max mc ci \<longleftrightarrow> has_increase_run 3 h"
    by (simp add: has_increase_run_def)
  then show ?thesis
    using sc by (auto simp: consistent_accumulator_def Let_def)
qed

lemma has_increase_run_mono:
  assumes "has_increase_run n h" and "m \<le> n"
  shows "has_increase_run m h"
proof -
  from assms(2) obtain k where n: "n = m + k" by (auto simp: le_iff_add)
  have "sublist (replicate m INCREASE) (replicate n INCREASE)"
    unfolding n replicate_add by (rule sublist_append_rightI)
  moreover have "sublist (replicate n INCREASE) (change_types h)"
    using assms(1) by (simp add: has_increase_run_def)
  ultimately have "sublist (replicate m INCREASE) (change_types h)"
    by (rule sublist_order.order_trans)
  then show ?thesis by (simp add: has_increase_run_def)
qed

lemma accumulator_strength:
  assumes "s \<in> set (consistent_accumulator names (c, h))"
  shows "signal_type s = ''consistent_accumulator''
       \<and> strength s = (if has_increase_run 4 h then ''strong'' else ''moderate'')"
proof -
  obtain ci mc iq where sc: "accumulator_scan h 0 0 [] = (ci, mc, iq)"
    by (cases "accumulator_scan h 0 0 []") auto
  from accumulator_scan_max [OF sc, of 4]
  have "4 \<le> max mc ci \<longleftrightarrow> has_increase_run 4 h"
    by (simp add: has_increase_run_def)
  then show ?thesis
    using sc assms by (auto simp: consistent_accumulator_def Let_def split: if_splits)
qed

lemma accumulator_signal_type:
  "s \<in> set (consistent_accumulator names item) \<Longrightarrow> signal_type s = ''consistent_accumulator''"
proof (cases item)
  case (Pair c h)
  assume "s \<in> set (consistent_accumulator names item)"
  then show ?thesis
    unfolding consistent_accumulator_def Pair
    by (cases "accumulator_scan h 0 0 []") (simp add: Let_def split: if_splits)
qed

lemma build_then_trim_signal_type:
  "s \<in> set (build_then_trim names item) \<Longrightarrow> signal_type s = ''build_then_trim''"
proof (cases item)
  case (Pair c h)
  assume "s \<in> set (build_then_trim names item)"
  then show ?thesis
    unfolding build_then_trim_def Pair
    by (cases "build_trim_scan h [] False") (auto split: if_splits)
qed

lemma probe_signal_type:
  "s \<in> set (one_quarter_probe names item) \<Longrightarrow> signal_type s = ''one_quarter_probe''"
proof (cases item)
  case (Pair c h)
  assume "s \<in> set (one_quarter_probe names item)"
  then obtain i where mem: "s \<in> set (probe_at names c h i)"
    unfolding one_quarter_probe_def Pair by auto
  then have new: "snd (snd (snd (h ! i))) = NEW"
    by (cases "snd (snd (snd (h ! i))) = NEW") (simp_all add: probe_at_def)
  show ?thesis
  proof (cases "find (\<lambda>j. snd (snd (snd (h ! j))) = EXIT) [i + 1..<min (i + 3) (length h)]")
    case None
    with mem new show ?thesis by (simp add: probe_at_def)
  next
    case (Some j)
    with mem new show ?thesis by (simp add: probe_at_def)
  qed
qed

lemma concentration_shift_signal_type:
  "s \<in> set (concentration_shift qdiffs) \<Longrightarrow> signal_type s = ''concentration_shift''"
  unfolding concentration_shift_def by (simp add: Let_def split: if_splits)

lemma theme_emergence_signal_type:
  "s \<in> set (theme_emergence assign diff) \<Longrightarrow> signal_type s = ''theme_emergence''"
  unfolding theme_emergence_def by (auto simp: Let_def split: if_splits)

lemma detect_signals_set:
  "qdiffs \<noteq> [] \<Longrightarrow>
     set (detect_signals assign qdiffs)
       = (\<Union>item \<in> set (position_history qdiffs).
            set (consistent_accumulator (cusip_to_name qdiffs) item))
         \<union> (\<Union>item \<in> set (position_history qdiffs).
              set (build_then_trim (cusip_to_name qdiffs) item))
         \<union> (\<Union>item \<in> set (position_history qdiffs).
              set (one_quarter_probe (cusip_to_name qdiffs) item))
         \<union> set (concentration_shift qdiffs)
         \<union> (\<Union>diff \<in> set qdiffs. set (theme_emergence assign diff))"
  by (simp add: detect_signals_def Let_def Un_assoc)

lemma detect_signals_accumulator:
  "s \<in> set (detect_signals assign qdiffs) \<and> signal_type s = ''consistent_accumulator''
     \<longleftrightarrow> qdiffs \<noteq> []
          \<and> (\<exists>item \<in> set (position_history qdiffs).
                s \<in> set (consistent_accumulator (cusip_to_name qdiffs) item))"
proof (cases "qdiffs = []")
  case True
  then show ?thesis by (simp add: detect_signals_def)
next
  case False
  have b: "signal_type s \<noteq> ''consistent_accumulator''"
    if "s \<in> set (build_then_trim names item)" for names item
    using build_then_trim_signal_type [OF that] by simp
  have c: "signal_type s \<noteq> ''consistent_accumulator''"
    if "s \<in> set (one_quarter_probe names item)" for names item
    using probe_signal_type [OF that] by simp
  have d: "signal_type s \<noteq> ''consistent_accumulator''"
    if "s \<in> set (concentration_shift qdiffs)"
    using concentration_shift_signal_type [OF that] by simp
  have e: "signal_type s \<noteq> ''consistent_accumulator''"
    if "s \<in> set (theme_emergence assign diff)" for diff
    using theme_emergence_signal_type [OF that] by simp
  have a: "signal_type s = ''consistent_accumulator''"
    if "s \<in> set (consistent_accumulator names item)" for names item
    using that by (rule accumulator_signal_type)
  show ?thesis
    unfolding detect_signals_set [OF False] using False a b c d e by blast
qed

text \<open>
  Claim C1 says that a \<^verbatim>\<open>consistent_accumulator\<close> signal is emitted for a history exactly when
  its longest run of consecutive \<^verbatim>\<open>INCREASE\<close> entries has length at least 3, with strength
  \<^verbatim>\<open>strong\<close> exactly from length 4, and that the quarters of the signal are the quarters of
  that longest run. The first two parts hold (\<open>accumulator_emits\<close>, \<open>accumulator_strength\<close>,
  \<open>detect_signals_accumulator\<close>). The quarters do not: the loop empties \<^verbatim>\<open>increase_quarters\<close>
  at every entry that is not an \<^verbatim>\<open>INCREASE\<close>, so what is left at the end are the quarters
  of the \<^verbatim>\<open>INCREASE\<close> entries at the end of the history (\<open>accumulator_quarters\<close>), and these
  are the longest run only when the longest run ends the history. In the five filings
  below the position grows for three quarters and is then trimmed: the signal of the three
  quarters is emitted with no quarter at all.
\<close>

theorem accumulator_quarters_lost:
  "fund_signals no_clusters first_seen_keys 1 ''FUND'' ex_run_filings
     default_config
   = Inr [\<lparr> signal_type = ''consistent_accumulator'',
               description = ''XCORP increased 3 consecutive quarters'',
               holdings = [''XCORP''],
               quarters = [],
               strength = ''moderate'',
               details = [(''consecutive_increases'', DInt 3)] \<rparr>,
            \<lparr> signal_type = ''build_then_trim'',
               description = ''XCORP built for 3 quarters then trimmed'',
               holdings = [''XCORP''],
               quarters = [''2024-06-30'', ''2024-09-30'', ''2024-12-31'', ''2025-03-31''],
               strength = ''moderate'',
               details = [(''build_quarters'', DInt 3)] \<rparr>]"
  by code_simp

lemma ex_run_history:
  "bind_err (compute_all_diffs first_seen_keys 1 ''FUND'' ex_run_filings
               default_config) (\<lambda>qdiffs. Inr (position_history qdiffs))
   = Inr [(''X'', [(''2024-06-30'', Some 200, Some 1, INCREASE),
                   (''2024-09-30'', Some 300, Some 1, INCREASE),
                   (''2024-12-31'', Some 400, Some 1, INCREASE),
                   (''2025-03-31'', Some 300, Some 1, DECREASE)])]"
  by code_simp

subsection \<open>Starter-to-scale on short sequences\<close>

text \<open>
  Claim C10. For a sequence of fewer than two diffs \<^verbatim>\<open>detect_starter_to_scale\<close> returns the
  empty list, whatever the diffs hold: also for a single diff with a new starter whose
  current weight exceeds 0.5\%, or whose current value exceeds \$20M.
\<close>

theorem starter_to_scale_short:
  assumes "length qdiffs < 2"
  shows "detect_starter_to_scale qdiffs = Inr []"
  using assms by (simp add: detect_starter_to_scale_def)

theorem starter_to_scale_short_witness:
  "length [ex_first_diff] < 2
   \<and> new_starters ex_first_diff = [ex_first_A]
   \<and> now_weight ex_first_A = Some 1 \<and> (1::rat) > 5 / 1000
   \<and> detect_starter_to_scale [ex_first_diff] = Inr []
   \<and> new_starters ex_big_diff = [ex_big_A]
   \<and> now_value_usd ex_big_A = Some 25000000 \<and> (25000000::int) > 20000000
   \<and> detect_starter_to_scale [ex_big_diff] = Inr []
   \<and> detect_starter_to_scale [] = Inr []"
proof -
  have l: "length [ex_first_diff] < 2" "length [ex_big_diff] < 2"
    "length ([] :: QuarterDiff list) < 2" by simp_all
  show ?thesis
    using starter_to_scale_short [OF l(1)] starter_to_scale_short [OF l(2)]
      starter_to_scale_short [OF l(3)]
    by (simp add: ex_first_diff_def ex_first_A_def ex_big_diff_def ex_big_A_def)
qed

end
